theory Spec2Isabelle
  imports
    Main
    "HOL-Library.Sublist"
    "HOL-Library.AList"
    "HOL-Library.Char_ord"
    "HOL-Library.List_Lexorder"
    "HOL-Library.Product_Lexorder"
begin

chapter \<open>tokendito: the helper module \<^verbatim>\<open>tokendito/user.py\<close>\<close>

text \<open>
  A shallow embedding of the functions of \<^verbatim>\<open>src/tokendito/user.py\<close> that decide
  role selection, secret masking, assertion extraction, MFA option display, alias
  lookup, ini persistence and URL sanitisation. Python strings are \<^typ>\<open>string\<close>;
  every \<^verbatim>\<open>sys.exit\<close> and every exception the code can raise on these paths is a value
  of \<open>error\<close>; a function that can fail returns \<open>error + 'a\<close>. Library calls
  (configparser, BeautifulSoup, requests, codecs, rich prompts) are either modelled by
  what they compute on the data the code hands them or taken as parameters.
\<close>

section \<open>Errors and Python string primitives\<close>

datatype error =
    SysExit nat           \<comment> \<open>\<^verbatim>\<open>sys.exit(n)\<close>\<close>
  | AttributeError        \<comment> \<open>attribute access on \<^verbatim>\<open>None\<close> or on a non-dict\<close>
  | IndexError            \<comment> \<open>list index out of range\<close>
  | KeyError              \<comment> \<open>missing dictionary key\<close>
  | ValueError            \<comment> \<open>\<^verbatim>\<open>max()\<close> of an empty sequence, invalid section name\<close>
  | NoSectionError        \<comment> \<open>configparser: option set in a missing section\<close>
  | DuplicateSectionError \<comment> \<open>configparser: section added twice\<close>
  | DecodeError           \<comment> \<open>base64 or UTF-8 decoding failed\<close>
  | NoValidInput          \<comment> \<open>the prompt never received a valid choice\<close>

text \<open>\<^verbatim>\<open>sub in s\<close> on strings.\<close>

fun str_contains :: "string \<Rightarrow> string \<Rightarrow> bool" where
  "str_contains sub [] = (sub = [])"
| "str_contains sub (c # cs) = (prefix sub (c # cs) \<or> str_contains sub cs)"

text \<open>
  \<^verbatim>\<open>s.replace(old, new)\<close>: the occurrences of \<open>old\<close> are found from the left and do not
  overlap; an empty \<open>old\<close> matches before every character and at the end.
\<close>

function str_replace :: "string \<Rightarrow> string \<Rightarrow> string \<Rightarrow> string" where
  "str_replace old new [] = (if old = [] then new else [])"
| "str_replace old new (c # cs) =
     (if old = [] then new @ c # str_replace old new cs
      else if prefix old (c # cs)
        then new @ str_replace old new (drop (length old) (c # cs))
      else c # str_replace old new cs)"
  by pat_completeness auto
termination
  by (relation "measure (\<lambda>(old, new, s). length s)") auto

text \<open>\<^verbatim>\<open>s.split(sep)\<close> for a one-character separator: never an empty list.\<close>

fun split_on :: "char \<Rightarrow> string \<Rightarrow> string list" where
  "split_on sep [] = [[]]"
| "split_on sep (c # cs) =
     (if c = sep then [] # split_on sep cs
      else (case split_on sep cs of
              [] \<Rightarrow> [[c]]
            | x # xs \<Rightarrow> (c # x) # xs))"

text \<open>\<^verbatim>\<open>s.split(sep, 1)\<close> when \<open>sep\<close> occurs in \<open>s\<close>, else the pair of \<open>s\<close> and the empty string.\<close>

definition cut_at :: "char \<Rightarrow> string \<Rightarrow> string \<times> string" where
  "cut_at sep s = (takeWhile (\<lambda>c. c \<noteq> sep) s, drop 1 (dropWhile (\<lambda>c. c \<noteq> sep) s))"

text \<open>\<^verbatim>\<open>xs[i]\<close> for a non-negative literal index: raises \<^verbatim>\<open>IndexError\<close> out of range.\<close>

definition index :: "'a list \<Rightarrow> nat \<Rightarrow> error + 'a" where
  "index xs i = (if i < length xs then Inr (xs ! i) else Inl IndexError)"

text \<open>\<^verbatim>\<open>s.strip(chars)\<close>.\<close>

definition strip :: "string \<Rightarrow> string \<Rightarrow> string" where
  "strip chars s =
     rev (dropWhile (\<lambda>c. c \<in> set chars) (rev (dropWhile (\<lambda>c. c \<in> set chars) s)))"

text \<open>
  \<^verbatim>\<open>s.lower()\<close> on ASCII letters; the 8-bit characters of \<^typ>\<open>string\<close> outside
  \<^verbatim>\<open>A-Z\<close> are left as they are.
\<close>

definition lower_char :: "char \<Rightarrow> char" where
  "lower_char c =
     (case map_of (zip ''ABCDEFGHIJKLMNOPQRSTUVWXYZ'' ''abcdefghijklmnopqrstuvwxyz'') c of
        None \<Rightarrow> c
      | Some l \<Rightarrow> l)"

definition lower :: "string \<Rightarrow> string" where
  "lower s = map lower_char s"

text \<open>Truthiness of an optional string: \<^verbatim>\<open>None\<close> and \<^verbatim>\<open>""\<close> are false.\<close>

fun truthy :: "string option \<Rightarrow> bool" where
  "truthy None = False"
| "truthy (Some s) = (s \<noteq> [])"

section \<open>Secret masking (\<^verbatim>\<open>mask_items\<close>, \<^verbatim>\<open>MaskLoggerSecret\<close>)\<close>

text \<open>
  The registry \<^verbatim>\<open>mask_items\<close> is a module-level list that is only ever appended to.
  The values the call sites of this file register are strings (ini, environment and
  command-line values, the typed password, the session id), on which the filter's
  \<^verbatim>\<open>str(secret)\<close> coercion is the identity.
\<close>

definition mask_text :: string where
  "mask_text = ''*****''"

definition sensitive_keys :: "string list" where
  "sensitive_keys = [''password'', ''mfa_response'', ''sessionToken'']"

definition add_sensitive_value_to_be_masked ::
  "string \<Rightarrow> string option \<Rightarrow> string list \<Rightarrow> string list" where
  "add_sensitive_value_to_be_masked val key mask_items =
     (case key of
        None \<Rightarrow> mask_items @ [val]
      | Some k \<Rightarrow> if k \<in> set sensitive_keys then mask_items @ [val] else mask_items)"

text \<open>A run of registrations, in program order, whichever source makes them.\<close>

fun register_all :: "(string \<times> string option) list \<Rightarrow> string list \<Rightarrow> string list" where
  "register_all [] mask_items = mask_items"
| "register_all ((val, key) # rest) mask_items =
     register_all rest (add_sensitive_value_to_be_masked val key mask_items)"

text \<open>
  The sources. Each hands every value it reads to
  \<^verbatim>\<open>add_sensitive_value_to_be_masked\<close> together with the name of the configuration
  element: group 2 of \<^verbatim>\<open>^(.*?)_(.*)\<close> on the lower-cased key, which on a key without a
  newline is the text after the first underscore (for an environment variable, group 3
  of \<^verbatim>\<open>^(tokendito)_(.*?)_(.*)\<close>, the text after the second underscore behind the
  prefix). The functions below list these calls in the order a source makes them. The
  environment and the command line skip a value that is empty (or \<^verbatim>\<open>None\<close>, which the
  empty string stands for here); the ini file does not.
\<close>

definition split_key :: "string \<Rightarrow> (string \<times> string) option" where
  "split_key key = (if CHR ''_'' \<in> set key then Some (cut_at CHR ''_'' key) else None)"

fun process_ini_file_calls :: "(string \<times> string) list \<Rightarrow> (string \<times> string option) list" where
  "process_ini_file_calls [] = []"
| "process_ini_file_calls ((key, val) # items) =
     (case split_key (lower key) of
        None \<Rightarrow> process_ini_file_calls items
      | Some (group1, group2) \<Rightarrow> (val, Some group2) # process_ini_file_calls items)"

text \<open>
  \<^verbatim>\<open>process_environment\<close> is only called without an argument, so the prefix in its
  pattern is the default \<^verbatim>\<open>tokendito\<close>.
\<close>

fun process_environment_calls :: "(string \<times> string) list \<Rightarrow> (string \<times> string option) list" where
  "process_environment_calls [] = []"
| "process_environment_calls ((key, val) # environ) =
     (if prefix ''tokendito_'' (lower key)
      then (case split_key (drop (length ''tokendito_'') (lower key)) of
              None \<Rightarrow> process_environment_calls environ
            | Some (group2, group3) \<Rightarrow>
                if val \<noteq> [] then (val, Some group3) # process_environment_calls environ
                else process_environment_calls environ)
      else process_environment_calls environ)"

text \<open>\<open>submodules\<close> is \<^verbatim>\<open>get_submodule_names()\<close>.\<close>

fun process_arguments_calls ::
  "string list \<Rightarrow> (string \<times> string) list \<Rightarrow> (string \<times> string option) list" where
  "process_arguments_calls submodules [] = []"
| "process_arguments_calls submodules ((key, val) # args) =
     (case split_key (lower key) of
        None \<Rightarrow> process_arguments_calls submodules args
      | Some (group1, group2) \<Rightarrow>
          if group1 \<notin> set submodules then process_arguments_calls submodules args
          else if val \<noteq> [] then (val, Some group2) # process_arguments_calls submodules args
          else process_arguments_calls submodules args)"

text \<open>
  \<^verbatim>\<open>process_interactive_input\<close> registers the password it asked for, and
  \<^verbatim>\<open>request_cookies\<close> the session id, both without a key.
\<close>

definition process_interactive_input_calls :: "string \<Rightarrow> (string \<times> string option) list" where
  "process_interactive_input_calls password = [(password, None)]"

definition request_cookies_calls :: "string \<Rightarrow> (string \<times> string option) list" where
  "request_cookies_calls sess_id = [(sess_id, None)]"

text \<open>
  \<^verbatim>\<open>MaskLoggerSecret.filter\<close>: the loop over \<^verbatim>\<open>mask_items\<close> rewrites \<^verbatim>\<open>record.msg\<close> once
  per registered value, in registration order. The result is the message the handlers
  see.
\<close>

fun filter_msg :: "string list \<Rightarrow> string \<Rightarrow> string" where
  "filter_msg [] msg = msg"
| "filter_msg (secret # rest) msg = filter_msg rest (str_replace secret mask_text msg)"

section \<open>ARN extraction (\<^verbatim>\<open>extract_arns\<close>)\<close>

text \<open>
  The pattern is \<^verbatim>\<open>>(arn:aws:iam::.*?,arn:aws:iam::.*?)<\<close>. A lazy \<^verbatim>\<open>.*?\<close> first tries
  to go on with the rest of the pattern and takes one more character, never a newline,
  only when that fails. \<open>lazy_any k s\<close> is the text matched by \<^verbatim>\<open>.*?\<close> followed by what
  the continuation \<open>k\<close> matches, \<open>None\<close> when there is no match from this position.
\<close>

fun lazy_any :: "(string \<Rightarrow> string option) \<Rightarrow> string \<Rightarrow> string option" where
  "lazy_any k [] = k []"
| "lazy_any k (c # cs) =
     (case k (c # cs) of
        Some m \<Rightarrow> Some m
      | None \<Rightarrow> if c = CHR 0x0A then None else map_option ((#) c) (lazy_any k cs))"

definition literal :: "string \<Rightarrow> (string \<Rightarrow> string option) \<Rightarrow> string \<Rightarrow> string option" where
  "literal lit k s =
     (if prefix lit s then map_option ((@) lit) (k (drop (length lit) s)) else None)"

definition closing :: "string \<Rightarrow> string option" where
  "closing s = (if prefix ''<'' s then Some [] else None)"

definition arn_marker :: string where
  "arn_marker = ''arn:aws:iam::''"

text \<open>The text of the group when the pattern matches at the start of \<open>s\<close>.\<close>

definition match_at :: "string \<Rightarrow> string option" where
  "match_at s =
     (if prefix ''>'' s
      then literal arn_marker
             (lazy_any (literal ('','' @ arn_marker) (lazy_any closing))) (tl s)
      else None)"

text \<open>
  \<^verbatim>\<open>re.findall\<close>: scan from the left; after a match (the group and the two delimiters
  around it) the scan resumes behind it.
\<close>

function findall_arns :: "string \<Rightarrow> string list" where
  "findall_arns [] = []"
| "findall_arns (c # cs) =
     (case match_at (c # cs) of
        Some g \<Rightarrow> g # findall_arns (drop (length g + 2) (c # cs))
      | None \<Rightarrow> findall_arns cs)"
  by pat_completeness auto
termination
  by (relation "measure length") auto

text \<open>
  The dictionary comprehension \<^verbatim>\<open>{i.split(",")[1]: i.split(",")[0] for i in arns}\<close>.
  A Python dict keeps insertion order and overwrites the value of a key already there,
  which is \<^const>\<open>AList.update\<close>.
\<close>

fun arns_dict :: "(string \<times> string) list \<Rightarrow> string list \<Rightarrow> error + (string \<times> string) list" where
  "arns_dict d [] = Inr d"
| "arns_dict d (i # rest) =
     (case index (split_on CHR '','' i) 1 of
        Inl e \<Rightarrow> Inl e
      | Inr role \<Rightarrow>
          (case index (split_on CHR '','' i) 0 of
             Inl e \<Rightarrow> Inl e
           | Inr provider \<Rightarrow> arns_dict (AList.update role provider d) rest))"

definition extract_arns :: "string \<Rightarrow> error + (string \<times> string) list" where
  "extract_arns saml =
     (let arns = findall_arns saml
      in if length arns = 0 then Inl (SysExit 2) else arns_dict [] arns)"

text \<open>
  Of one match: the provider is the text before the first comma, the role the text
  between the first comma and the next one (or the end).
\<close>

abbreviation provider_of :: "string \<Rightarrow> string" where
  "provider_of i \<equiv> fst (cut_at CHR '','' i)"

abbreviation role_of :: "string \<Rightarrow> string" where
  "role_of i \<equiv> fst (cut_at CHR '','' (snd (cut_at CHR '','' i)))"

section \<open>Configuration\<close>

text \<open>
  The fields of \<^verbatim>\<open>config.okta\<close> and \<^verbatim>\<open>config.aws\<close> that the functions below read,
  under the names the command line gives them. A field that is \<^verbatim>\<open>None\<close> is \<open>None\<close>.
\<close>

record config =
  okta_username :: "string option"
  okta_password :: "string option"
  okta_org :: "string option"
  okta_app_url :: "string option"
  aws_profile :: "string option"
  aws_role_arn :: "string option"
  aws_output :: "string option"
  aws_region :: "string option"

section \<open>Role selection (\<^verbatim>\<open>select_role_arn\<close>)\<close>

text \<open>
  One entry of \<^verbatim>\<open>authenticated_aps\<close>: the roles found in the application's assertion
  (the keys of the dictionary \<^verbatim>\<open>extract_arns\<close> returned, in order), its label, the decoded
  assertion and the identity provider's response page. The mapping itself is the list
  of its (url, entry) items in iteration order.
\<close>

record app =
  app_roles :: "string list"
  app_label :: string
  app_saml :: string
  app_saml_response_string :: string

type_synonym aps = "(string \<times> app) list"

text \<open>\<^verbatim>\<open>role.split("/")[-1]\<close>; the split is never empty.\<close>

definition role_name :: "string \<Rightarrow> string" where
  "role_name role = last (split_on CHR ''/'' role)"

text \<open>
  \<^verbatim>\<open>dict((role.split("/")[-1], role) for role in app["roles"])\<close>: a later role with the
  same name replaces an earlier one.
\<close>

definition role_names :: "string list \<Rightarrow> string \<Rightarrow> string option" where
  "role_names rs = map_of (rev (map (\<lambda>role. (role_name role, role)) rs))"

text \<open>\<^verbatim>\<open>roles.count(config.aws["profile"])\<close>; \<^verbatim>\<open>None\<close> equals no string.\<close>

fun count_profile :: "string list \<Rightarrow> string option \<Rightarrow> nat" where
  "count_profile names None = 0"
| "count_profile names (Some p) = count_list names p"

fun lookup_profile :: "string list \<Rightarrow> string option \<Rightarrow> string option" where
  "lookup_profile rs None = None"
| "lookup_profile rs (Some p) = role_names rs p"

fun arn_listed :: "string option \<Rightarrow> string list \<Rightarrow> bool" where
  "arn_listed None rs = False"
| "arn_listed (Some arn) rs = (arn \<in> set rs)"

text \<open>
  The \<^verbatim>\<open>for url, app in authenticated_aps.items()\<close> loop. \<open>Inr None\<close> is leaving the
  loop with \<^verbatim>\<open>selected_role\<close> still \<^verbatim>\<open>None\<close>; \<open>Inr (Some (role, url))\<close> is a
  \<^verbatim>\<open>break\<close> with the tuple set.
\<close>

fun select_loop :: "config \<Rightarrow> aps \<Rightarrow> error + (string \<times> string) option" where
  "select_loop cfg [] = Inr None"
| "select_loop cfg ((url, a) # rest) =
     (if count_profile (map role_name (app_roles a)) (aws_profile cfg) > 1
        then Inl (SysExit 2)
      else (case lookup_profile (app_roles a) (aws_profile cfg) of
              Some role \<Rightarrow> Inr (Some (role, url))
            | None \<Rightarrow>
                if arn_listed (aws_role_arn cfg) (app_roles a)
                  then Inr (Some (the (aws_role_arn cfg), url))
                else select_loop cfg rest))"

text \<open>
  \<^verbatim>\<open>select_role_arn\<close>, with the interactive selection it falls back on as the
  parameter \<open>prompt\<close> (below it is \<open>prompt_role_choices\<close>).
\<close>

definition select_role_arn ::
  "(aps \<Rightarrow> error + string \<times> string) \<Rightarrow> config \<Rightarrow> aps \<Rightarrow> error + string \<times> string" where
  "select_role_arn prompt cfg authenticated_aps =
     (case select_loop cfg authenticated_aps of
        Inl e \<Rightarrow> Inl e
      | Inr (Some selected_role) \<Rightarrow> Inr selected_role
      | Inr None \<Rightarrow>
          (case aws_role_arn cfg of
             None \<Rightarrow> prompt authenticated_aps
           | Some arn \<Rightarrow> Inl (SysExit 2)))"

text \<open>
  The roles of one source whose trailing name segment equals the configured alias.
\<close>

abbreviation named :: "config \<Rightarrow> app \<Rightarrow> string list" where
  "named cfg a \<equiv> filter (\<lambda>role. Some (role_name role) = aws_profile cfg) (app_roles a)"

section \<open>Account aliases and the interactive choice\<close>

text \<open>
  What \<^verbatim>\<open>get_account_aliases\<close> and \<^verbatim>\<open>prompt_role_choices\<close> obtain from outside the
  program:
  \<^item> \<open>form_action page\<close>: \<^verbatim>\<open>str(soup.find("form").get("action"))\<close> for the parsed page,
    \<open>None\<close> when the page has no form (\<^verbatim>\<open>form\<close> is \<^verbatim>\<open>None\<close>);
  \<^item> \<open>b64encode\<close>: \<^verbatim>\<open>codecs.encode(_, "base64")\<close> of the UTF-8 bytes;
  \<^item> \<open>post url data\<close>: the text of the response to the POST, \<open>None\<close> when the
    request raises;
  \<^item> \<open>account_texts body\<close>: the strings \<^verbatim>\<open>soup.find_all(text=re.compile("Account:"))\<close>
    finds in the parsed body;
  \<^item> \<open>answers\<close>: what the user types at the integer prompt, in order.
\<close>

record world =
  form_action :: "string \<Rightarrow> string option"
  b64encode :: "string \<Rightarrow> string"
  post :: "string \<Rightarrow> string \<Rightarrow> string option"
  account_texts :: "string \<Rightarrow> string list"
  answers :: "int list"

text \<open>
  \<^verbatim>\<open>{str(i.split(" ")[-1]).strip("()"): i.split(" ")[1] for i in account_names}\<close>
\<close>

fun alias_dict :: "(string \<times> string) list \<Rightarrow> string list \<Rightarrow> error + (string \<times> string) list" where
  "alias_dict d [] = Inr d"
| "alias_dict d (i # rest) =
     (case index (split_on CHR '' '' i) 1 of
        Inl e \<Rightarrow> Inl e
      | Inr alias \<Rightarrow>
          alias_dict (AList.update (strip ''()'' (last (split_on CHR '' '' i))) alias d) rest)"

definition get_account_aliases ::
  "world \<Rightarrow> string \<Rightarrow> string \<Rightarrow> error + (string \<times> string) list option" where
  "get_account_aliases w saml_xml saml_response_string =
     (case form_action w saml_response_string of
        None \<Rightarrow> Inl AttributeError
      | Some url \<Rightarrow>
          (case post w url (b64encode w saml_xml) of
             None \<Rightarrow> Inl (SysExit 1)
           | Some body \<Rightarrow>
               if \<not> str_contains ''Account: '' body then Inr None
               else map_sum id Some (alias_dict [] (account_texts w body))))"

type_synonym row = "string \<times> string \<times> string \<times> string"

text \<open>
  The inner loop over \<^verbatim>\<open>app["roles"]\<close>. \<^verbatim>\<open>if alias_table:\<close> is false for \<^verbatim>\<open>None\<close> and for
  an empty dictionary.
\<close>

fun alias_rows ::
  "string \<Rightarrow> string \<Rightarrow> (string \<times> string) list option \<Rightarrow> string list \<Rightarrow> error + row list" where
  "alias_rows url lbl alias_table [] = Inr []"
| "alias_rows url lbl alias_table (role # rest) =
     (case index (split_on CHR '':'' role) 4 of
        Inl e \<Rightarrow> Inl e
      | Inr account \<Rightarrow>
          (case (if alias_table \<noteq> None \<and> alias_table \<noteq> Some []
                 then (case map_of (the alias_table) account of
                         None \<Rightarrow> Inl KeyError
                       | Some alias \<Rightarrow> Inr alias)
                 else Inr account) of
             Inl e \<Rightarrow> Inl e
           | Inr shown \<Rightarrow>
               (case alias_rows url lbl alias_table rest of
                  Inl e \<Rightarrow> Inl e
                | Inr others \<Rightarrow> Inr ((lbl, shown, role, url) # others))))"

text \<open>The outer loop: \<^verbatim>\<open>aliases_mapping\<close> before it is sorted.\<close>

fun aliases_mapping :: "world \<Rightarrow> aps \<Rightarrow> error + row list" where
  "aliases_mapping w [] = Inr []"
| "aliases_mapping w ((url, a) # rest) =
     (case get_account_aliases w (app_saml a) (app_saml_response_string a) of
        Inl e \<Rightarrow> Inl e
      | Inr alias_table \<Rightarrow>
          (case alias_rows url (app_label a) alias_table (app_roles a) of
             Inl e \<Rightarrow> Inl e
           | Inr rows \<Rightarrow>
               (case aliases_mapping w rest of
                  Inl e \<Rightarrow> Inl e
                | Inr others \<Rightarrow> Inr (rows @ others))))"

text \<open>
  \<^verbatim>\<open>collect_integer(valid_range)\<close>: the prompt asks again until the answer is one of
  \<^verbatim>\<open>0 .. valid_range - 1\<close>; \<open>None\<close> when no answer ever is.
\<close>

definition collect_integer :: "nat \<Rightarrow> int list \<Rightarrow> nat option" where
  "collect_integer valid_range typed =
     map_option nat (find (\<lambda>x. 0 \<le> x \<and> x < int valid_range) typed)"

text \<open>
  \<^verbatim>\<open>prompt_role_choices\<close>. The menu it prints is the sorted \<^verbatim>\<open>aliases_mapping\<close>, one line
  per row; \<^verbatim>\<open>max(len(i[1]) for i in aliases_mapping)\<close> raises on an empty list.
\<close>

definition prompt_role_choices :: "world \<Rightarrow> aps \<Rightarrow> error + string \<times> string" where
  "prompt_role_choices w aut_aps =
     (case aliases_mapping w aut_aps of
        Inl e \<Rightarrow> Inl e
      | Inr rows \<Rightarrow>
          if rows = [] then Inl ValueError
          else (case collect_integer (length (sort rows)) (answers w) of
                  None \<Rightarrow> Inl NoValidInput
                | Some user_input \<Rightarrow>
                    (case sort rows ! user_input of
                       (lbl, alias, role, url) \<Rightarrow> Inr (role, url))))"

text \<open>The rows of \<^verbatim>\<open>aliases_mapping\<close> when every role is shown with the fifth colon-separated
  field of its ARN, the account identifier.\<close>

abbreviation account_rows :: "aps \<Rightarrow> row list" where
  "account_rows aut_aps \<equiv>
     concat (map (\<lambda>(url, a).
       map (\<lambda>role. (app_label a, split_on CHR '':'' role ! 4, role, url)) (app_roles a)) aut_aps)"

section \<open>Assertion extraction (\<^verbatim>\<open>validate_saml_response\<close>)\<close>

text \<open>
  The parsed page as BeautifulSoup holds it: elements with a tag name, an attribute
  dictionary and children, and text nodes. The soup is the list of top-level nodes.
\<close>

datatype html = Element string "(string \<times> string) list" "html list" | TextNode string

fun descendants :: "html \<Rightarrow> html list" where
  "descendants (TextNode s) = []"
| "descendants (Element tag attrs children) =
     concat (map (\<lambda>child. child # descendants child) children)"

text \<open>\<^verbatim>\<open>elem.get(key)\<close>\<close>

fun elem_get :: "html \<Rightarrow> string \<Rightarrow> string option" where
  "elem_get (TextNode s) key = None"
| "elem_get (Element tag attrs children) key = map_of attrs key"

fun is_tag :: "string \<Rightarrow> html \<Rightarrow> bool" where
  "is_tag name (TextNode s) = False"
| "is_tag name (Element tag attrs children) = (tag = name)"

text \<open>
  \<^verbatim>\<open>soup.find_all("input", attrs={"name": "SAMLResponse"})\<close>: the matching elements in
  document order.
\<close>

definition find_all_saml_inputs :: "html list \<Rightarrow> html list" where
  "find_all_saml_inputs soup =
     filter (\<lambda>e. is_tag ''input'' e \<and> elem_get e ''name'' = Some ''SAMLResponse'')
       (concat (map (\<lambda>node. node # descendants node) soup))"

text \<open>
  The loop body
  \<^verbatim>\<open>xml = codecs.decode(saml_base64.encode("ascii"), "base64").decode("utf-8")\<close>
  with the decoder as the parameter \<open>decode\<close> (\<open>None\<close> where any of the three steps
  raises); a field without \<^verbatim>\<open>value\<close> gives \<^verbatim>\<open>None.encode\<close>.
\<close>

fun decode_fields ::
  "(string \<Rightarrow> string option) \<Rightarrow> string option \<Rightarrow> html list \<Rightarrow> error + string option" where
  "decode_fields decode xml [] = Inr xml"
| "decode_fields decode xml (elem # rest) =
     (case elem_get elem ''value'' of
        None \<Rightarrow> Inl AttributeError
      | Some saml_base64 \<Rightarrow>
          (case decode saml_base64 of
             None \<Rightarrow> Inl DecodeError
           | Some decoded \<Rightarrow> decode_fields decode (Some decoded) rest))"

definition validate_saml_response ::
  "(string \<Rightarrow> string option) \<Rightarrow> html list \<Rightarrow> error + string" where
  "validate_saml_response decode soup =
     (case decode_fields decode None (find_all_saml_inputs soup) of
        Inl e \<Rightarrow> Inl e
      | Inr None \<Rightarrow> Inl (SysExit 1)
      | Inr (Some xml) \<Rightarrow> Inr xml)"

section \<open>MFA option display (\<^verbatim>\<open>factor_type_info\<close>, \<^verbatim>\<open>mfa_option_info\<close>)\<close>

text \<open>
  An MFA option is a dictionary decoded from the provider's JSON reply. JSON
  \<^verbatim>\<open>null\<close> and a missing key both read as \<^verbatim>\<open>None\<close> through \<^verbatim>\<open>dict.get\<close>; numbers are
  kept as integers.
\<close>

datatype json =
    JNull
  | JBool bool
  | JNum int
  | JStr string
  | JArr "json list"
  | JObj "(string \<times> json) list"

text \<open>\<^verbatim>\<open>d.get(key)\<close> on a dictionary.\<close>

definition dict_get :: "(string \<times> json) list \<Rightarrow> string \<Rightarrow> json" where
  "dict_get d key = (case map_of d key of None \<Rightarrow> JNull | Some v \<Rightarrow> v)"

text \<open>
  \<^verbatim>\<open>v.get(key)\<close> on whatever value \<open>v\<close> is: only a dictionary has the method,
  \<^verbatim>\<open>None\<close>, strings, numbers and lists raise \<^verbatim>\<open>AttributeError\<close>.
\<close>

fun value_get :: "json \<Rightarrow> string \<Rightarrow> error + json" where
  "value_get (JObj d) key = Inr (dict_get d key)"
| "value_get v key = Inl AttributeError"

text \<open>Python truthiness, as \<^verbatim>\<open>if not factor_info\<close> reads it.\<close>

fun json_truthy :: "json \<Rightarrow> bool" where
  "json_truthy JNull = False"
| "json_truthy (JBool b) = b"
| "json_truthy (JNum n) = (n \<noteq> 0)"
| "json_truthy (JStr s) = (s \<noteq> [])"
| "json_truthy (JArr xs) = (xs \<noteq> [])"
| "json_truthy (JObj d) = (d \<noteq> [])"

definition factor_type_info :: "json \<Rightarrow> (string \<times> json) list \<Rightarrow> error + json" where
  "factor_type_info factor_type mfa_option =
     (if factor_type \<in> set [JStr ''token'', JStr ''token:software:totp'', JStr ''token:hardware'']
        then value_get (dict_get mfa_option ''profile'') ''credentialId''
      else if factor_type = JStr ''push''
        then value_get (dict_get mfa_option ''profile'') ''name''
      else if factor_type = JStr ''sms'' \<or> factor_type = JStr ''call''
        then value_get (dict_get mfa_option ''profile'') ''phoneNumber''
      else if factor_type = JStr ''webauthn''
        then value_get (dict_get mfa_option ''profile'') ''authenticatorName''
      else if factor_type \<in> set [JStr ''web'', JStr ''u2f'', JStr ''token:hotp'']
        then Inr (dict_get mfa_option ''vendorName'')
      else if factor_type = JStr ''question''
        then value_get (dict_get mfa_option ''profile'') ''question''
      else if factor_type = JStr ''email''
        then value_get (dict_get mfa_option ''profile'') ''email''
      else Inr (JStr ''Not Presented''))"

definition mfa_option_info :: "(string \<times> json) list \<Rightarrow> error + json" where
  "mfa_option_info mfa_option =
     (case (case map_of mfa_option ''factorType'' of
              None \<Rightarrow> Inr JNull
            | Some factor_type \<Rightarrow> factor_type_info factor_type mfa_option) of
        Inl e \<Rightarrow> Inl e
      | Inr factor_info \<Rightarrow>
          Inr (if \<not> json_truthy factor_info then JStr ''Not Presented'' else factor_info))"

section \<open>Ini files (\<^verbatim>\<open>update_ini\<close>)\<close>

text \<open>
  The state of a \<^verbatim>\<open>configparser.RawConfigParser\<close>: the options of the default section
  and, for each named section, its options. This is what \<^verbatim>\<open>ini.read\<close> builds from the
  text of the file and what \<^verbatim>\<open>ini.write\<close> puts back, section by section.
\<close>

record ini =
  ini_defaults :: "string \<Rightarrow> string option"
  ini_sections :: "string \<Rightarrow> (string \<Rightarrow> string option) option"

definition default_section :: string where
  "default_section = ''DEFAULT''"

text \<open>\<^verbatim>\<open>has_section\<close> does not acknowledge the default section.\<close>

definition has_section :: "ini \<Rightarrow> string \<Rightarrow> bool" where
  "has_section p section = (ini_sections p section \<noteq> None)"

definition add_section :: "ini \<Rightarrow> string \<Rightarrow> error + ini" where
  "add_section p section =
     (if section = default_section then Inl ValueError
      else if ini_sections p section \<noteq> None then Inl DuplicateSectionError
      else Inr (p\<lparr>ini_sections := (ini_sections p)(section \<mapsto> Map.empty)\<rparr>))"

text \<open>\<^verbatim>\<open>optionxform\<close> of a parser that does not override it is \<^verbatim>\<open>str.lower\<close>.\<close>

definition optionxform :: "string \<Rightarrow> string" where
  "optionxform optionstr = lower optionstr"

text \<open>
  \<^verbatim>\<open>RawConfigParser.set\<close>: an empty section name or the default section's name addresses
  the defaults.
\<close>

definition ini_set :: "ini \<Rightarrow> string \<Rightarrow> string \<Rightarrow> string \<Rightarrow> error + ini" where
  "ini_set p section option val =
     (if section = [] \<or> section = default_section
        then Inr (p\<lparr>ini_defaults := (ini_defaults p)(optionxform option \<mapsto> val)\<rparr>)
      else (case ini_sections p section of
              None \<Rightarrow> Inl NoSectionError
            | Some sectdict \<Rightarrow>
                Inr (p\<lparr>ini_sections :=
                  (ini_sections p)(section \<mapsto> sectdict(optionxform option \<mapsto> val))\<rparr>)))"

text \<open>\<^verbatim>\<open>for key, value in kwargs.items(): ini.set(profile, key, value)\<close>\<close>

fun set_all :: "ini \<Rightarrow> string \<Rightarrow> (string \<times> string) list \<Rightarrow> error + ini" where
  "set_all p profile [] = Inr p"
| "set_all p profile ((key, val) # rest) =
     (case ini_set p profile key val of
        Inl e \<Rightarrow> Inl e
      | Inr p' \<Rightarrow> set_all p' profile rest)"

text \<open>
  \<^verbatim>\<open>update_ini(profile, ini_file, **kwargs)\<close>. The file system is seen through three
  inputs: whether the directory exists or can be made (\<open>dir_ok\<close>), what reading the
  file gives (\<open>None\<close> for a \<^verbatim>\<open>configparser.Error\<close> or \<^verbatim>\<open>OSError\<close>; a missing file reads as
  an empty parser), and whether the file can be written (\<open>write_ok\<close>). The result is the
  parser whose content was written.
\<close>

definition update_ini ::
  "bool \<Rightarrow> ini option \<Rightarrow> bool \<Rightarrow> string \<Rightarrow> (string \<times> string) list \<Rightarrow> error + ini" where
  "update_ini dir_ok parsed write_ok profile kwargs =
     (if \<not> dir_ok then Inl (SysExit 1)
      else (case parsed of
              None \<Rightarrow> Inl (SysExit 1)
            | Some p \<Rightarrow>
                (case (if \<not> has_section p profile then add_section p profile else Inr p) of
                   Inl e \<Rightarrow> Inl e
                 | Inr p1 \<Rightarrow>
                     (case set_all p1 profile kwargs of
                        Inl e \<Rightarrow> Inl e
                      | Inr p2 \<Rightarrow> if write_ok then Inr p2 else Inl (SysExit 1)))))"

section \<open>URLs (\<^verbatim>\<open>get_base_url\<close>, \<^verbatim>\<open>validate_okta_org_url\<close>, \<^verbatim>\<open>validate_okta_app_url\<close>)\<close>

text \<open>
  \<^verbatim>\<open>urllib.parse.urlparse\<close> as CPython 3.11 computes it, step by step as \<^verbatim>\<open>urlsplit\<close> and
  \<^verbatim>\<open>urlparse\<close> are written: leading control characters and spaces are stripped; tab,
  carriage return and line feed are removed everywhere; a scheme is a leading run of
  scheme characters that starts with a letter and ends at the first colon; a network
  location follows \<^verbatim>\<open>//\<close> and ends before the first of \<^verbatim>\<open>/ ? #\<close>; a network location
  with an unmatched bracket, or with a bracketed host that is no IP literal, raises
  \<^verbatim>\<open>ValueError\<close>; then the fragment, the query and the parameters of the last path
  segment are cut off; last \<^verbatim>\<open>_checknetloc\<close> may raise \<^verbatim>\<open>ValueError\<close> on a network
  location that is not ASCII.

  Two decisions are made by other library modules and are parameters:
  \<^item> \<open>ipv6_address h\<close>: \<^verbatim>\<open>ipaddress.ip_address(h)\<close> returns an IPv6 address (it neither
    raises nor returns an IPv4 address);
  \<^item> \<open>netloc_normal n\<close>: the NFKC form of the non-ASCII network location \<open>n\<close> (by
    \<^verbatim>\<open>unicodedata.normalize\<close>) brings in none of \<^verbatim>\<open>/ ? # @ :\<close>, so that \<^verbatim>\<open>_checknetloc\<close>
    returns.
\<close>

record urllib =
  ipv6_address :: "string \<Rightarrow> bool"
  netloc_normal :: "string \<Rightarrow> bool"

record url =
  url_scheme :: string
  url_netloc :: string
  url_path :: string
  url_params :: string
  url_query :: string
  url_fragment :: string

definition ascii_letters :: string where
  "ascii_letters = ''abcdefghijklmnopqrstuvwxyzABCDEFGHIJKLMNOPQRSTUVWXYZ''"

definition digits :: string where
  "digits = ''0123456789''"

definition scheme_chars :: string where
  "scheme_chars = ascii_letters @ digits @ ''+-.''"

text \<open>
  \<^verbatim>\<open>url.lstrip(_WHATWG_C0_CONTROL_OR_SPACE)\<close>, then the removal of each of
  \<^verbatim>\<open>_UNSAFE_URL_BYTES_TO_REMOVE\<close>.
\<close>

definition unsafe_url_bytes :: string where
  "unsafe_url_bytes = [CHR 0x09, CHR 0x0D, CHR 0x0A]"

definition clean_url :: "string \<Rightarrow> string" where
  "clean_url u =
     filter (\<lambda>c. c \<notin> set unsafe_url_bytes) (dropWhile (\<lambda>c. c \<le> CHR 0x20) u)"

definition split_scheme :: "string \<Rightarrow> string \<times> string" where
  "split_scheme u =
     (let s = takeWhile (\<lambda>c. c \<noteq> CHR '':'') u
      in if CHR '':'' \<in> set u \<and> s \<noteq> [] \<and> hd s \<in> set ascii_letters
            \<and> (\<forall>c \<in> set s. c \<in> set scheme_chars)
         then (lower s, drop (length s + 1) u)
         else ([], u))"

definition split_netloc :: "string \<Rightarrow> string \<times> string" where
  "split_netloc u =
     (takeWhile (\<lambda>c. c \<notin> set ''/?#'') (drop 2 u),
      dropWhile (\<lambda>c. c \<notin> set ''/?#'') (drop 2 u))"

text \<open>
  \<^verbatim>\<open>_check_bracketed_host\<close>: a host that starts with \<^verbatim>\<open>v\<close> must match
  \<^verbatim>\<open>\Av[a-fA-F0-9]+\..+\Z\<close> (no line feed is left in the text at this point), any other
  must be an IPv6 address.
\<close>

definition hex_digits :: string where
  "hex_digits = ''abcdefABCDEF0123456789''"

definition check_bracketed_host :: "urllib \<Rightarrow> string \<Rightarrow> bool" where
  "check_bracketed_host lib hostname =
     (if prefix ''v'' hostname
      then (let hex = takeWhile (\<lambda>c. c \<in> set hex_digits) (tl hostname);
                rest = drop (length hex) (tl hostname)
            in hex \<noteq> [] \<and> prefix ''.'' rest \<and> 2 \<le> length rest)
      else ipv6_address lib hostname)"

text \<open>
  The two bracket tests of \<^verbatim>\<open>urlsplit\<close>; the bracketed host is
  \<^verbatim>\<open>netloc.partition('[')[2].partition(']')[0]\<close>. \<open>False\<close> is \<^verbatim>\<open>ValueError\<close>.
\<close>

definition brackets_ok :: "urllib \<Rightarrow> string \<Rightarrow> bool" where
  "brackets_ok lib netloc =
     (if (CHR ''['' \<in> set netloc \<and> CHR '']'' \<notin> set netloc)
         \<or> (CHR '']'' \<in> set netloc \<and> CHR ''['' \<notin> set netloc)
      then False
      else if CHR ''['' \<in> set netloc \<and> CHR '']'' \<in> set netloc
      then check_bracketed_host lib
             (takeWhile (\<lambda>c. c \<noteq> CHR '']'')
               (drop 1 (dropWhile (\<lambda>c. c \<noteq> CHR ''['') netloc)))
      else True)"

text \<open>\<^verbatim>\<open>_checknetloc\<close>: returns at once for an empty or an ASCII network location.\<close>

definition checknetloc :: "urllib \<Rightarrow> string \<Rightarrow> bool" where
  "checknetloc lib netloc =
     (netloc = [] \<or> (\<forall>c \<in> set netloc. c < CHR 0x80) \<or> netloc_normal lib netloc)"

definition uses_params :: "string list" where
  "uses_params = [[], ''ftp'', ''hdl'', ''prospero'', ''http'', ''imap'', ''https'',
     ''shttp'', ''rtsp'', ''rtsps'', ''rtspu'', ''sip'', ''sips'', ''mms'', ''sftp'', ''tel'']"

text \<open>\<^verbatim>\<open>_splitparams\<close>: the parameters start at the first \<^verbatim>\<open>;\<close> of the last segment.\<close>

definition split_params :: "string \<Rightarrow> string \<times> string" where
  "split_params p =
     (let seg = rev (takeWhile (\<lambda>c. c \<noteq> CHR ''/'') (rev p));
          before = take (length p - length seg) p
      in if CHR '';'' \<in> set seg
         then (before @ fst (cut_at CHR '';'' seg), snd (cut_at CHR '';'' seg))
         else (p, []))"

definition urlparse :: "urllib \<Rightarrow> string \<Rightarrow> error + url" where
  "urlparse lib urlstring =
     (let (scheme, u1) = split_scheme (clean_url urlstring);
          (netloc, u2) = (if take 2 u1 = ''//'' then split_netloc u1 else ([], u1))
      in if take 2 u1 = ''//'' \<and> \<not> brackets_ok lib netloc then Inl ValueError
         else (let (u3, fragment) = cut_at CHR ''#'' u2;
                   (u4, query) = cut_at CHR ''?'' u3
               in if \<not> checknetloc lib netloc then Inl ValueError
                  else (let (path, params) =
                              (if scheme \<in> set uses_params then split_params u4 else (u4, []))
                        in Inr \<lparr>url_scheme = scheme, url_netloc = netloc, url_path = path,
                                url_params = params, url_query = query,
                                url_fragment = fragment\<rparr>)))"

definition get_base_url :: "urllib \<Rightarrow> string \<Rightarrow> error + string" where
  "get_base_url lib urlstring =
     (case urlparse lib urlstring of
        Inl e \<Rightarrow> Inl e
      | Inr u \<Rightarrow> Inr (url_scheme u @ ''://'' @ url_netloc u))"

definition validate_okta_org_url :: "urllib \<Rightarrow> string \<Rightarrow> error + bool" where
  "validate_okta_org_url lib input_url =
     (case urlparse lib input_url of
        Inl e \<Rightarrow> Inl e
      | Inr u \<Rightarrow>
          Inr (url_scheme u = ''https''
               \<and> (url_path u = [] \<or> url_path u = ''/'')
               \<and> url_params u = []
               \<and> url_query u = []
               \<and> url_fragment u = []))"

text \<open>
  \<^verbatim>\<open>re.match(r"^/home/amazon_aws/\w{20}/\d{3}$", path)\<close> on ASCII text: \<^verbatim>\<open>$\<close> also
  matches before one final newline.
\<close>

definition word_chars :: string where
  "word_chars = ascii_letters @ digits @ ''_''"

definition match_app_path :: "string \<Rightarrow> bool" where
  "match_app_path p =
     (let pre = ''/home/amazon_aws/'';
          rest = drop (length pre) p;
          body = (if rest \<noteq> [] \<and> last rest = CHR 0x0A then butlast rest else rest)
      in prefix pre p
         \<and> length body = 24
         \<and> (\<forall>c \<in> set (take 20 body). c \<in> set word_chars)
         \<and> body ! 20 = CHR ''/''
         \<and> (\<forall>c \<in> set (drop 21 body). c \<in> set digits))"

definition validate_okta_app_url :: "urllib \<Rightarrow> string \<Rightarrow> error + bool" where
  "validate_okta_app_url lib input_url =
     (case urlparse lib input_url of
        Inl e \<Rightarrow> Inl e
      | Inr u \<Rightarrow> Inr (url_scheme u = ''https'' \<and> match_app_path (url_path u)))"

section \<open>Validation and sanitisation of the merged configuration\<close>

text \<open>
  \<^verbatim>\<open>validate_configuration\<close>: the list of complaints, empty for a configuration that is
  accepted; the app URL is parsed before the organization URL, and a \<^verbatim>\<open>ValueError\<close> of
  the parser is not caught. \<^verbatim>\<open>startswith\<close> is \<^const>\<open>prefix\<close>.
\<close>

definition same_domain_message :: "string \<Rightarrow> string \<Rightarrow> string" where
  "same_domain_message org_url app =
     ''Org URL '' @ org_url @ '' and Tile URL '' @ app @ '' must be in the same domain.''"

definition validate_configuration :: "urllib \<Rightarrow> config \<Rightarrow> error + string list" where
  "validate_configuration lib cfg =
     (case (if truthy (okta_app_url cfg)
            then validate_okta_app_url lib (the (okta_app_url cfg)) else Inr True) of
        Inl e \<Rightarrow> Inl e
      | Inr app_valid \<Rightarrow>
          (case (if truthy (okta_org cfg)
                 then validate_okta_org_url lib (the (okta_org cfg)) else Inr True) of
             Inl e \<Rightarrow> Inl e
           | Inr org_valid \<Rightarrow>
               Inr ((if \<not> truthy (okta_username cfg) then [''Username not set.''] else [])
                 @ (if \<not> truthy (okta_password cfg) then [''Password not set.''] else [])
                 @ (if \<not> truthy (okta_org cfg) \<and> \<not> truthy (okta_app_url cfg)
                    then [''Either Okta Org or App URL must be defined.''] else [])
                 @ (if truthy (okta_app_url cfg) \<and> \<not> app_valid
                    then [''Tile URL '' @ the (okta_app_url cfg) @ '' is not valid.''] else [])
                 @ (if truthy (okta_org cfg) \<and> \<not> org_valid
                    then [''Org URL '' @ the (okta_org cfg) @ '' is not valid''] else [])
                 @ (if truthy (okta_org cfg) \<and> truthy (okta_app_url cfg)
                       \<and> \<not> prefix (the (okta_org cfg)) (the (okta_app_url cfg))
                    then [same_domain_message (the (okta_org cfg)) (the (okta_app_url cfg))]
                    else []))))"

text \<open>
  \<^verbatim>\<open>sanitize_config_values\<close>. A \<^verbatim>\<open>ValueError\<close> that \<^verbatim>\<open>get_base_url\<close> raises leaves the
  function before anything is set. The allow-lists \<^verbatim>\<open>aws.get_output_types()\<close> and
  \<^verbatim>\<open>aws.get_regions()\<close> and the defaults \<^verbatim>\<open>config.get_defaults()["aws"]\<close> live in other
  modules and are parameters.
\<close>

definition sanitize_config_values ::
  "urllib \<Rightarrow> string list \<Rightarrow> string list \<Rightarrow> config \<Rightarrow> config \<Rightarrow> error + config" where
  "sanitize_config_values lib output_types regions defaults cfg =
     (case (if truthy (okta_app_url cfg)
            then (case get_base_url lib (the (okta_app_url cfg)) of
                    Inl e \<Rightarrow> Inl e
                  | Inr base_url \<Rightarrow> Inr (cfg\<lparr>okta_org := Some base_url\<rparr>))
            else Inr cfg) of
        Inl e \<Rightarrow> Inl e
      | Inr c1 \<Rightarrow>
          (let c2 = (if aws_output c1 \<notin> Some ` set output_types
                     then c1\<lparr>aws_output := aws_output defaults\<rparr>
                     else c1);
               c3 = (if aws_region c2 \<notin> Some ` set regions
                     then c2\<lparr>aws_region := aws_region defaults\<rparr>
                     else c2)
           in Inr c3))"

section \<open>Facts about the string primitives\<close>

lemma disjoint_not_prefix:
  assumes "s \<noteq> []" "new \<noteq> []" "set s \<inter> set new = {}"
  shows "\<not> prefix s (new @ t)"
  using assms by (cases s; cases new) auto

lemma disjoint_contains_append:
  assumes "s \<noteq> []" "set s \<inter> set new = {}" "str_contains s (new @ t)"
  shows "str_contains s t"
  using assms
proof (induction new)
  case Nil
  then show ?case by simp
next
  case (Cons a new)
  from Cons.prems have "\<not> prefix s (a # new @ t)"
    by (cases s) auto
  with Cons show ?case by auto
qed

lemma prefix_str_replace:
  assumes "set s \<inter> set new = {}" "new \<noteq> []" "prefix s (str_replace old new m)"
  shows "prefix s m"
  using assms
proof (induction old new m arbitrary: s rule: str_replace.induct)
  case (1 old new)
  then show ?case by (cases s; cases new) (auto split: if_splits)
next
  case (2 old new c cs)
  show ?case
  proof (cases s)
    case Nil
    then show ?thesis by simp
  next
    case (Cons a s')
    have np: "\<not> prefix s (new @ t)" for t
      using Cons "2.prems" disjoint_not_prefix [of s new t] by simp
    show ?thesis
    proof (cases "old = [] \<or> prefix old (c # cs)")
      case True
      then show ?thesis using "2.prems"(3) np by (auto split: if_splits)
    next
      case False
      with "2.prems"(3) have "prefix s (c # str_replace old new cs)" by simp
      with Cons have ac: "a = c" and p': "prefix s' (str_replace old new cs)" by auto
      have "set s' \<inter> set new = {}" using "2.prems"(1) Cons by auto
      with "2.IH"(3) [of s'] False p' "2.prems"(2) have "prefix s' cs" by simp
      with ac Cons show ?thesis by simp
    qed
  qed
qed

lemma str_contains_drop:
  "str_contains s (drop n m) \<Longrightarrow> str_contains s m"
proof (induction m arbitrary: n)
  case Nil
  then show ?case by simp
next
  case (Cons c cs)
  show ?case
  proof (cases n)
    case 0
    with Cons.prems show ?thesis by simp
  next
    case (Suc k)
    with Cons.prems have "str_contains s (drop k cs)" by simp
    then have "str_contains s cs" by (rule Cons.IH)
    then show ?thesis by simp
  qed
qed

lemma str_replace_empty_old:
  "\<exists>t. str_replace [] new m = new @ t"
  by (cases m) auto

text \<open>
  Replacing any \<open>old\<close> by a text that shares no character with \<open>s\<close> creates no new
  occurrence of \<open>s\<close>.
\<close>

lemma contains_str_replace:
  assumes "s \<noteq> []" "set s \<inter> set new = {}" "new \<noteq> []"
    "str_contains s (str_replace old new m)"
  shows "str_contains s m"
  using assms
proof (induction old new m rule: str_replace.induct)
  case (1 old new)
  then show ?case
    using disjoint_contains_append [of s new "[]"] by (auto split: if_splits)
next
  case (2 old new c cs)
  consider (empty) "old = []" | (hit) "old \<noteq> []" "prefix old (c # cs)"
    | (miss) "old \<noteq> []" "\<not> prefix old (c # cs)" by blast
  then show ?case
  proof cases
    case empty
    with "2.prems" have "str_contains s (new @ c # str_replace old new cs)" by simp
    with "2.prems" have "str_contains s (c # str_replace old new cs)"
      using disjoint_contains_append by blast
    then have "prefix s (c # str_replace old new cs) \<or> str_contains s (str_replace old new cs)"
      by simp
    then show ?thesis
    proof
      assume p: "prefix s (c # str_replace old new cs)"
      obtain t where t: "str_replace old new cs = new @ t"
        using str_replace_empty_old empty by blast
      obtain a s' where s: "s = a # s'" using "2.prems"(1) by (cases s) auto
      with p t have ac: "a = c" and p': "prefix s' (new @ t)" by auto
      have "set s' \<inter> set new = {}" using "2.prems"(2) s by auto
      with p' "2.prems"(3) have "s' = []" using disjoint_not_prefix by blast
      with s ac show ?thesis by simp
    next
      assume "str_contains s (str_replace old new cs)"
      with "2.IH"(1) empty "2.prems" show ?thesis by simp
    qed
  next
    case hit
    with "2.prems" have "str_contains s (new @ str_replace old new (drop (length old) (c # cs)))"
      by simp
    with "2.prems" have "str_contains s (str_replace old new (drop (length old) (c # cs)))"
      using disjoint_contains_append by blast
    with "2.IH"(2) hit "2.prems" have "str_contains s (drop (length old) (c # cs))" by simp
    then show ?thesis by (rule str_contains_drop)
  next
    case miss
    with "2.prems" have "prefix s (c # str_replace old new cs) \<or> str_contains s (str_replace old new cs)"
      by simp
    then show ?thesis
    proof
      assume "prefix s (c # str_replace old new cs)"
      with miss have "prefix s (str_replace old new (c # cs))" by simp
      with "2.prems" have "prefix s (c # cs)" using prefix_str_replace by blast
      then show ?thesis by simp
    next
      assume "str_contains s (str_replace old new cs)"
      with "2.IH"(3) miss "2.prems" show ?thesis by simp
    qed
  qed
qed

text \<open>Replacing \<open>s\<close> itself leaves no occurrence of \<open>s\<close>.\<close>

lemma str_replace_removes:
  assumes "s \<noteq> []" "set s \<inter> set new = {}" "new \<noteq> []"
  shows "\<not> str_contains s (str_replace s new m)"
  using assms
proof (induction s new m rule: str_replace.induct)
  case (1 old new)
  then show ?case by simp
next
  case (2 old new c cs)
  show ?case
  proof (cases "prefix old (c # cs)")
    case True
    have "\<not> str_contains old (str_replace old new (drop (length old) (c # cs)))"
      using "2.IH"(2) "2.prems" True by simp
    then have "\<not> str_contains old (new @ str_replace old new (drop (length old) (c # cs)))"
      using disjoint_contains_append "2.prems" by blast
    with True "2.prems"(1) show ?thesis by simp
  next
    case False
    have a: "\<not> str_contains old (str_replace old new cs)"
      using "2.IH"(3) "2.prems" False by simp
    have "\<not> prefix old (c # str_replace old new cs)"
    proof
      assume "prefix old (c # str_replace old new cs)"
      with False "2.prems"(1) have "prefix old (str_replace old new (c # cs))" by simp
      with "2.prems" have "prefix old (c # cs)" using prefix_str_replace by blast
      with False show False by simp
    qed
    with a False "2.prems"(1) show ?thesis by simp
  qed
qed

section \<open>Secret masking\<close>

lemma star_free_disjoint:
  "CHR ''*'' \<notin> set s \<Longrightarrow> set s \<inter> set mask_text = {}"
  by (auto simp: mask_text_def)

lemma filter_msg_keeps_absent:
  assumes "s \<noteq> []" "CHR ''*'' \<notin> set s" "\<not> str_contains s msg"
  shows "\<not> str_contains s (filter_msg items msg)"
  using assms
proof (induction items arbitrary: msg)
  case Nil
  then show ?case by simp
next
  case (Cons secret rest)
  have "\<not> str_contains s (str_replace secret mask_text msg)"
    using contains_str_replace [of s mask_text secret msg] Cons.prems star_free_disjoint
    by (auto simp: mask_text_def)
  with Cons show ?case by simp
qed

lemma filter_msg_masks_member:
  assumes "s \<in> set items" "s \<noteq> []" "CHR ''*'' \<notin> set s"
  shows "\<not> str_contains s (filter_msg items msg)"
  using assms
proof (induction items arbitrary: msg)
  case Nil
  then show ?case by simp
next
  case (Cons secret rest)
  show ?case
  proof (cases "secret = s")
    case True
    have "\<not> str_contains s (str_replace s mask_text msg)"
      using str_replace_removes [of s mask_text msg] Cons.prems star_free_disjoint
      by (auto simp: mask_text_def)
    then show ?thesis
      using filter_msg_keeps_absent Cons.prems True by simp
  next
    case False
    with Cons show ?thesis by simp
  qed
qed

lemma add_sensitive_keeps:
  "set mask_items \<subseteq> set (add_sensitive_value_to_be_masked val key mask_items)"
  by (auto simp: add_sensitive_value_to_be_masked_def split: option.splits)

lemma register_all_keeps:
  "set mask_items \<subseteq> set (register_all later mask_items)"
proof (induction later arbitrary: mask_items)
  case Nil
  then show ?case by simp
next
  case (Cons r later)
  obtain val key where r: "r = (val, key)" by (cases r)
  have "set mask_items \<subseteq> set (add_sensitive_value_to_be_masked val key mask_items)"
    by (rule add_sensitive_keeps)
  also have "\<dots> \<subseteq> set (register_all later (add_sensitive_value_to_be_masked val key mask_items))"
    by (rule Cons.IH)
  finally show ?case using r by simp
qed

lemma add_sensitive_registers:
  assumes "key = None \<or> (\<exists>k. key = Some k \<and> k \<in> set sensitive_keys)"
  shows "val \<in> set (add_sensitive_value_to_be_masked val key mask_items)"
  using assms by (auto simp: add_sensitive_value_to_be_masked_def)

text \<open>
  C1 (amended). A value registered through \<^verbatim>\<open>add_sensitive_value_to_be_masked\<close> without
  a key or under one of the sensitive keys, whatever was registered before it and
  whatever is registered after it, and whichever source made the call: if the value is
  not empty and contains no \<^verbatim>\<open>*\<close>, then no message that has passed the filter contains
  that value. The registry does not record where a value came from.
\<close>

theorem registered_secret_never_logged:
  assumes "key = None \<or> (\<exists>k. key = Some k \<and> k \<in> set sensitive_keys)"
    and "val \<noteq> []" and "CHR ''*'' \<notin> set val"
  shows "\<not> str_contains val
           (filter_msg (register_all later (add_sensitive_value_to_be_masked val key earlier)) msg)"
proof -
  have "val \<in> set (add_sensitive_value_to_be_masked val key earlier)"
    using assms(1) by (rule add_sensitive_registers)
  then have "val \<in> set (register_all later (add_sensitive_value_to_be_masked val key earlier))"
    using register_all_keeps by blast
  then show ?thesis
    using assms(2,3) by (rule filter_msg_masks_member)
qed

theorem registered_secret_never_logged_witness:
  "\<not> str_contains ''hunter2''
      (filter_msg
        (register_all [(''123456'', Some ''mfa_response'')]
          (add_sensitive_value_to_be_masked ''hunter2'' (Some ''password'') [''sid'']))
        ''login with hunter2 and 123456'')
   \<and> filter_msg
        (register_all [(''123456'', Some ''mfa_response'')]
          (add_sensitive_value_to_be_masked ''hunter2'' (Some ''password'') [''sid'']))
        ''login with hunter2 and 123456'' = ''login with ***** and *****''"
proof -
  have "\<not> str_contains ''hunter2''
      (filter_msg
        (register_all [(''123456'', Some ''mfa_response'')]
          (add_sensitive_value_to_be_masked ''hunter2'' (Some ''password'') [''sid'']))
        ''login with hunter2 and 123456'')"
    using registered_secret_never_logged
      [of "Some ''password''" "''hunter2''" "[(''123456'', Some ''mfa_response'')]" "[''sid'']"
          "''login with hunter2 and 123456''"]
    by (simp add: sensitive_keys_def)
  moreover have "filter_msg
        (register_all [(''123456'', Some ''mfa_response'')]
          (add_sensitive_value_to_be_masked ''hunter2'' (Some ''password'') [''sid'']))
        ''login with hunter2 and 123456'' = ''login with ***** and *****''"
    by (simp add: add_sensitive_value_to_be_masked_def sensitive_keys_def mask_text_def)
  ultimately show ?thesis by simp
qed

text \<open>
  C1 as stated fails where registered values overlap: with \<^verbatim>\<open>ab\<close> registered before
  \<^verbatim>\<open>abc\<close>, the message \<^verbatim>\<open>abc\<close> leaves the filter as \<^verbatim>\<open>*****c\<close>; the occurrence of the
  registered value \<^verbatim>\<open>abc\<close> was not replaced by the mask, its last character is still
  there. And a registered \<^verbatim>\<open>*\<close> still occurs in the masked message.
\<close>

theorem overlapping_secret_partly_masked:
  "filter_msg
     (add_sensitive_value_to_be_masked ''abc'' None
       (add_sensitive_value_to_be_masked ''ab'' None [])) ''abc'' = ''*****c''
   \<and> str_contains ''*''
       (filter_msg (add_sensitive_value_to_be_masked ''*'' None []) ''pw=*'')"
  by (simp add: add_sensitive_value_to_be_masked_def mask_text_def)

text \<open>
  The same for each source on its own: a non-empty, star-free value that the source
  reads under a sensitive element name is in no message that passes the filter later.
\<close>

lemma register_all_set:
  "set (register_all calls mask_items) =
     set mask_items \<union> {v. (v, None) \<in> set calls \<or> (\<exists>k \<in> set sensitive_keys. (v, Some k) \<in> set calls)}"
proof (induction calls arbitrary: mask_items)
  case Nil
  then show ?case by simp
next
  case (Cons call calls)
  obtain v key where call: "call = (v, key)" by (cases call)
  show ?case
  proof (cases key)
    case None
    with call Cons show ?thesis
      by (auto simp: add_sensitive_value_to_be_masked_def)
  next
    case (Some k)
    with call Cons show ?thesis
      by (auto simp: add_sensitive_value_to_be_masked_def)
  qed
qed

lemma process_ini_file_calls_member:
  assumes "(key, val) \<in> set items" and "split_key (lower key) = Some (group1, group2)"
  shows "(val, Some group2) \<in> set (process_ini_file_calls items)"
  using assms
proof (induction items)
  case Nil
  then show ?case by simp
next
  case (Cons item items)
  obtain k v where item: "item = (k, v)" by (cases item)
  show ?case
  proof (cases "(k, v) = (key, val)")
    case True
    with item Cons.prems(2) show ?thesis by simp
  next
    case False
    with item Cons.prems(1) have "(key, val) \<in> set items" by auto
    with Cons have "(val, Some group2) \<in> set (process_ini_file_calls items)"
      by simp
    with item show ?thesis by (simp split: option.splits)
  qed
qed

lemma process_environment_calls_member:
  assumes "(key, val) \<in> set environ" and "prefix ''tokendito_'' (lower key)"
    and "split_key (drop (length ''tokendito_'') (lower key)) = Some (group2, group3)"
    and "val \<noteq> []"
  shows "(val, Some group3) \<in> set (process_environment_calls environ)"
  using assms
proof (induction environ)
  case Nil
  then show ?case by simp
next
  case (Cons item environ)
  obtain k v where item: "item = (k, v)" by (cases item)
  show ?case
  proof (cases "(k, v) = (key, val)")
    case True
    with item Cons.prems(2,3,4) show ?thesis by simp
  next
    case False
    with item Cons.prems(1) have "(key, val) \<in> set environ" by auto
    with Cons have "(val, Some group3) \<in> set (process_environment_calls environ)"
      by simp
    with item show ?thesis by (simp split: option.splits)
  qed
qed

lemma process_arguments_calls_member:
  assumes "(key, val) \<in> set args" and "split_key (lower key) = Some (group1, group2)"
    and "group1 \<in> set submodules" and "val \<noteq> []"
  shows "(val, Some group2) \<in> set (process_arguments_calls submodules args)"
  using assms
proof (induction args)
  case Nil
  then show ?case by simp
next
  case (Cons item args)
  obtain k v where item: "item = (k, v)" by (cases item)
  show ?case
  proof (cases "(k, v) = (key, val)")
    case True
    with item Cons.prems(2,3,4) show ?thesis by simp
  next
    case False
    with item Cons.prems(1) have "(key, val) \<in> set args" by auto
    with Cons have "(val, Some group2) \<in> set (process_arguments_calls submodules args)"
      by simp
    with item show ?thesis by (simp split: option.splits)
  qed
qed

lemma sensitive_call_never_logged:
  assumes "(val, None) \<in> set calls \<or> (\<exists>k \<in> set sensitive_keys. (val, Some k) \<in> set calls)"
    and "val \<noteq> []" and "CHR ''*'' \<notin> set val"
  shows "\<not> str_contains val (filter_msg (register_all later (register_all calls earlier)) msg)"
proof -
  have "val \<in> set (register_all calls earlier)"
    using assms(1) by (simp add: register_all_set)
  then have "val \<in> set (register_all later (register_all calls earlier))"
    using register_all_keeps by blast
  then show ?thesis using assms(2,3) by (rule filter_msg_masks_member)
qed

lemma ini_secret_never_logged:
  assumes "(key, val) \<in> set items" and "split_key (lower key) = Some (group1, group2)"
    and "group2 \<in> set sensitive_keys" and "val \<noteq> []" and "CHR ''*'' \<notin> set val"
  shows "\<not> str_contains val
           (filter_msg (register_all later (register_all (process_ini_file_calls items) earlier)) msg)"
  using process_ini_file_calls_member [OF assms(1,2)] assms(3,4,5)
  by (intro sensitive_call_never_logged) auto

lemma environment_secret_never_logged:
  assumes "(key, val) \<in> set environ" and "prefix ''tokendito_'' (lower key)"
    and "split_key (drop (length ''tokendito_'') (lower key)) = Some (group2, group3)"
    and "group3 \<in> set sensitive_keys" and "val \<noteq> []" and "CHR ''*'' \<notin> set val"
  shows "\<not> str_contains val
           (filter_msg (register_all later
              (register_all (process_environment_calls environ) earlier)) msg)"
  using process_environment_calls_member [OF assms(1,2,3,5)] assms(4,5,6)
  by (intro sensitive_call_never_logged) auto

lemma argument_secret_never_logged:
  assumes "(key, val) \<in> set args" and "split_key (lower key) = Some (group1, group2)"
    and "group1 \<in> set submodules"
    and "group2 \<in> set sensitive_keys" and "val \<noteq> []" and "CHR ''*'' \<notin> set val"
  shows "\<not> str_contains val
           (filter_msg (register_all later
              (register_all (process_arguments_calls submodules args) earlier)) msg)"
  using process_arguments_calls_member [OF assms(1,2,3,5)] assms(4,5,6)
  by (intro sensitive_call_never_logged) auto

lemma interactive_secret_never_logged:
  assumes "password \<noteq> []" and "CHR ''*'' \<notin> set password"
  shows "\<not> str_contains password
           (filter_msg (register_all later
              (register_all (process_interactive_input_calls password) earlier)) msg)"
  using assms by (intro sensitive_call_never_logged) (auto simp: process_interactive_input_calls_def)

text \<open>
  The element name is compared after lower-casing, so the third sensitive key,
  \<^verbatim>\<open>sessionToken\<close>, is never met by a key of the ini file, the environment or the
  command line.
\<close>

lemma session_token_key_never_matches:
  "process_ini_file_calls [(''okta_sessionToken'', ''tok'')] = [(''tok'', Some ''sessiontoken'')]
   \<and> register_all (process_ini_file_calls [(''okta_sessionToken'', ''tok'')]) [] = []"
  by (simp add: split_key_def cut_at_def lower_def lower_char_def
        add_sensitive_value_to_be_masked_def sensitive_keys_def)

section \<open>Role selection\<close>

lemma count_profile_named:
  "count_profile (map role_name (app_roles a)) (aws_profile cfg) = length (named cfg a)"
proof (cases "aws_profile cfg")
  case None
  then show ?thesis by simp
next
  case (Some p)
  have "count_list (map role_name rs) p = length (filter (\<lambda>role. Some (role_name role) = Some p) rs)"
    for rs
    by (induction rs) auto
  with Some show ?thesis by simp
qed

lemma role_names_last:
  "role_names rs p =
     (case filter (\<lambda>role. role_name role = p) rs of [] \<Rightarrow> None | x # xs \<Rightarrow> Some (last (x # xs)))"
proof (induction rs rule: rev_induct)
  case Nil
  then show ?case by (simp add: role_names_def)
next
  case (snoc r rs)
  then show ?case
    by (auto simp: role_names_def split: list.splits)
qed

lemma lookup_profile_named:
  "lookup_profile (app_roles a) (aws_profile cfg) =
     (case named cfg a of [] \<Rightarrow> None | x # xs \<Rightarrow> Some (last (x # xs)))"
proof (cases "aws_profile cfg")
  case None
  then show ?thesis by simp
next
  case (Some p)
  then show ?thesis by (simp add: role_names_last)
qed

text \<open>Sources in which neither the alias nor the role ARN matches are passed over.\<close>

lemma select_loop_skip:
  assumes "\<forall>(u, b) \<in> set before.
             named cfg b = [] \<and> \<not> arn_listed (aws_role_arn cfg) (app_roles b)"
  shows "select_loop cfg (before @ rest) = select_loop cfg rest"
  using assms
proof (induction before)
  case Nil
  then show ?case by simp
next
  case (Cons x before)
  obtain u b where x: "x = (u, b)" by (cases x)
  with Cons.prems have n: "named cfg b = []" and l: "\<not> arn_listed (aws_role_arn cfg) (app_roles b)"
    by auto
  have "select_loop cfg ((u, b) # before @ rest) = select_loop cfg (before @ rest)"
    using n l by (simp add: count_profile_named lookup_profile_named)
  with Cons x show ?case by simp
qed

lemma select_loop_ambiguous:
  assumes "length (named cfg a) > 1"
  shows "select_loop cfg ((url, a) # rest) = Inl (SysExit 2)"
  using assms by (simp add: count_profile_named)

lemma select_loop_alias:
  assumes "length (named cfg a) = 1"
  shows "select_loop cfg ((url, a) # rest) = Inr (Some (hd (named cfg a), url))"
proof -
  from assms obtain r where r: "named cfg a = [r]"
    by (cases "named cfg a") auto
  then show ?thesis
    by (simp add: count_profile_named lookup_profile_named)
qed

lemma select_loop_arn:
  assumes "named cfg a = []" "arn_listed (aws_role_arn cfg) (app_roles a)"
  shows "select_loop cfg ((url, a) # rest) = Inr (Some (the (aws_role_arn cfg), url))"
  using assms by (simp add: count_profile_named lookup_profile_named)

text \<open>
  C3 (amended). The ambiguity check is made per source, in iteration order: if, in a
  source, the alias equals the trailing name segment of more than one role, and neither
  the alias nor the configured role ARN matched in a source examined before it, role
  selection exits with status 2 and selects no role, whatever the later sources hold
  and without prompting.
\<close>

theorem ambiguous_alias_exits:
  assumes "\<forall>(u, b) \<in> set before.
             named cfg b = [] \<and> \<not> arn_listed (aws_role_arn cfg) (app_roles b)"
    and "length (named cfg a) > 1"
  shows "select_role_arn prompt cfg (before @ (url, a) # after) = Inl (SysExit 2)"
proof -
  have "select_loop cfg (before @ (url, a) # after) = select_loop cfg ((url, a) # after)"
    using assms(1) by (rule select_loop_skip)
  also have "\<dots> = Inl (SysExit 2)"
    using assms(2) by (rule select_loop_ambiguous)
  finally show ?thesis by (simp add: select_role_arn_def)
qed

theorem ambiguous_alias_exits_witness:
  "select_role_arn (\<lambda>aps. Inr (''never'', ''asked''))
     \<lparr>okta_username = None, okta_password = None, okta_org = None, okta_app_url = None,
      aws_profile = Some ''admin'', aws_role_arn = None, aws_output = None, aws_region = None\<rparr>
     ([(''https://acme.okta.com/home/amazon_aws/1'',
        \<lparr>app_roles = [''arn:aws:iam::111:role/dev''], app_label = ''one'',
         app_saml = [], app_saml_response_string = []\<rparr>)]
      @ (''https://acme.okta.com/home/amazon_aws/2'',
        \<lparr>app_roles = [''arn:aws:iam::222:role/admin'', ''arn:aws:iam::333:role/admin''],
         app_label = ''two'', app_saml = [], app_saml_response_string = []\<rparr>) # [])
   = Inl (SysExit 2)"
  by (rule ambiguous_alias_exits) (simp_all add: role_name_def)

text \<open>
  C3 as stated fails when the alias names one role in each of two sources: the first
  source's role is selected and no ambiguity is reported.
\<close>

theorem alias_in_two_sources_selects_first:
  "select_role_arn (\<lambda>aps. Inl NoValidInput)
     \<lparr>okta_username = None, okta_password = None, okta_org = None, okta_app_url = None,
      aws_profile = Some ''admin'', aws_role_arn = None, aws_output = None, aws_region = None\<rparr>
     [(''https://acme.okta.com/home/amazon_aws/1'',
        \<lparr>app_roles = [''arn:aws:iam::111:role/admin''], app_label = ''one'',
         app_saml = [], app_saml_response_string = []\<rparr>),
      (''https://acme.okta.com/home/amazon_aws/2'',
        \<lparr>app_roles = [''arn:aws:iam::222:role/admin''], app_label = ''two'',
         app_saml = [], app_saml_response_string = []\<rparr>)]
   = Inr (''arn:aws:iam::111:role/admin'', ''https://acme.okta.com/home/amazon_aws/1'')"
  by (simp add: select_role_arn_def role_name_def role_names_def)

text \<open>
  C4 (amended). The sources are examined in iteration order and the first source in
  which the alias or the configured role ARN matches decides. With no match in the
  sources before it: a source in which the alias names exactly one role yields that role
  and the source's URL; a source in which the alias names no role and which lists the
  configured role ARN yields that ARN and the source's URL; both without prompting.
  When no source matches at all, a configured role ARN exits with status 2 and a missing
  one hands over to the interactive selection. With a role ARN configured the outcome
  never depends on the interactive selection.
\<close>

theorem role_selection_precedence:
  assumes "\<forall>(u, b) \<in> set before.
             named cfg b = [] \<and> \<not> arn_listed (aws_role_arn cfg) (app_roles b)"
  shows "(length (named cfg a) = 1 \<longrightarrow>
            select_role_arn prompt cfg (before @ (url, a) # after)
              = Inr (hd (named cfg a), url))
       \<and> (named cfg a = [] \<and> arn_listed (aws_role_arn cfg) (app_roles a) \<longrightarrow>
            select_role_arn prompt cfg (before @ (url, a) # after)
              = Inr (the (aws_role_arn cfg), url))
       \<and> (aws_role_arn cfg \<noteq> None \<longrightarrow>
            select_role_arn prompt cfg before = Inl (SysExit 2))
       \<and> (aws_role_arn cfg = None \<longrightarrow>
            select_role_arn prompt cfg before = prompt before)
       \<and> (aws_role_arn cfg \<noteq> None \<longrightarrow>
            select_role_arn prompt cfg aps = select_role_arn prompt' cfg aps)"
proof -
  have skip: "select_loop cfg (before @ rest) = select_loop cfg rest" for rest
    using assms by (rule select_loop_skip)
  have none: "select_loop cfg before = Inr None"
    using skip [of "[]"] by simp
  have "length (named cfg a) = 1 \<Longrightarrow>
          select_role_arn prompt cfg (before @ (url, a) # after) = Inr (hd (named cfg a), url)"
    using skip [of "(url, a) # after"] select_loop_alias [of cfg a url after]
    by (simp add: select_role_arn_def)
  moreover have "named cfg a = [] \<Longrightarrow> arn_listed (aws_role_arn cfg) (app_roles a) \<Longrightarrow>
          select_role_arn prompt cfg (before @ (url, a) # after)
            = Inr (the (aws_role_arn cfg), url)"
    using skip [of "(url, a) # after"] select_loop_arn [of cfg a url after]
    by (simp add: select_role_arn_def)
  moreover have "aws_role_arn cfg \<noteq> None \<Longrightarrow>
          select_role_arn prompt cfg before = Inl (SysExit 2)"
    using none by (auto simp: select_role_arn_def)
  moreover have "aws_role_arn cfg = None \<Longrightarrow> select_role_arn prompt cfg before = prompt before"
    using none by (simp add: select_role_arn_def)
  moreover have "aws_role_arn cfg \<noteq> None \<Longrightarrow>
          select_role_arn prompt cfg aps = select_role_arn prompt' cfg aps"
    by (auto simp: select_role_arn_def split: sum.splits option.splits)
  ultimately show ?thesis by blast
qed

text \<open>
  The scenario of the specification: bindings \<^verbatim>\<open>roleA\<close> and \<^verbatim>\<open>roleB\<close>, configured role ARN
  \<^verbatim>\<open>roleB\<close>; and, for the other branches, an alias that names one role, a role ARN that
  no source lists, and no role ARN at all.
\<close>

theorem role_selection_precedence_witness:
  "select_role_arn (\<lambda>aps. Inl NoValidInput)
     \<lparr>okta_username = None, okta_password = None, okta_org = None, okta_app_url = None,
      aws_profile = None, aws_role_arn = Some ''arn:aws:iam::111:role/roleB'',
      aws_output = None, aws_region = None\<rparr>
     ([] @ (''https://acme.okta.com/home/amazon_aws/1'',
        \<lparr>app_roles = [''arn:aws:iam::111:role/roleA'', ''arn:aws:iam::111:role/roleB''],
         app_label = ''one'', app_saml = [], app_saml_response_string = []\<rparr>) # [])
     = Inr (''arn:aws:iam::111:role/roleB'', ''https://acme.okta.com/home/amazon_aws/1'')
   \<and> select_role_arn (\<lambda>aps. Inl NoValidInput)
     \<lparr>okta_username = None, okta_password = None, okta_org = None, okta_app_url = None,
      aws_profile = Some ''roleA'', aws_role_arn = Some ''arn:aws:iam::111:role/roleB'',
      aws_output = None, aws_region = None\<rparr>
     ([] @ (''https://acme.okta.com/home/amazon_aws/1'',
        \<lparr>app_roles = [''arn:aws:iam::111:role/roleA'', ''arn:aws:iam::111:role/roleB''],
         app_label = ''one'', app_saml = [], app_saml_response_string = []\<rparr>) # [])
     = Inr (''arn:aws:iam::111:role/roleA'', ''https://acme.okta.com/home/amazon_aws/1'')
   \<and> select_role_arn (\<lambda>aps. Inr (''asked'', ''user''))
     \<lparr>okta_username = None, okta_password = None, okta_org = None, okta_app_url = None,
      aws_profile = None, aws_role_arn = Some ''arn:aws:iam::111:role/roleC'',
      aws_output = None, aws_region = None\<rparr>
     [(''https://acme.okta.com/home/amazon_aws/1'',
        \<lparr>app_roles = [''arn:aws:iam::111:role/roleA'', ''arn:aws:iam::111:role/roleB''],
         app_label = ''one'', app_saml = [], app_saml_response_string = []\<rparr>)]
     = Inl (SysExit 2)
   \<and> select_role_arn (\<lambda>aps. Inr (''asked'', ''user''))
     \<lparr>okta_username = None, okta_password = None, okta_org = None, okta_app_url = None,
      aws_profile = None, aws_role_arn = None, aws_output = None, aws_region = None\<rparr>
     [(''https://acme.okta.com/home/amazon_aws/1'',
        \<lparr>app_roles = [''arn:aws:iam::111:role/roleA'', ''arn:aws:iam::111:role/roleB''],
         app_label = ''one'', app_saml = [], app_saml_response_string = []\<rparr>)]
     = Inr (''asked'', ''user'')"
proof -
  let ?a = "\<lparr>app_roles = [''arn:aws:iam::111:role/roleA'', ''arn:aws:iam::111:role/roleB''],
         app_label = ''one'', app_saml = [], app_saml_response_string = []\<rparr>"
  let ?u = "''https://acme.okta.com/home/amazon_aws/1''"
  let ?arnB = "\<lparr>okta_username = None, okta_password = None, okta_org = None,
      okta_app_url = None, aws_profile = None,
      aws_role_arn = Some ''arn:aws:iam::111:role/roleB'', aws_output = None, aws_region = None\<rparr>"
  let ?aliasA = "\<lparr>okta_username = None, okta_password = None, okta_org = None,
      okta_app_url = None, aws_profile = Some ''roleA'',
      aws_role_arn = Some ''arn:aws:iam::111:role/roleB'', aws_output = None, aws_region = None\<rparr>"
  let ?arnC = "\<lparr>okta_username = None, okta_password = None, okta_org = None,
      okta_app_url = None, aws_profile = None,
      aws_role_arn = Some ''arn:aws:iam::111:role/roleC'', aws_output = None, aws_region = None\<rparr>"
  let ?nothing = "\<lparr>okta_username = None, okta_password = None, okta_org = None,
      okta_app_url = None, aws_profile = None, aws_role_arn = None,
      aws_output = None, aws_region = None\<rparr>"
  have "select_role_arn (\<lambda>aps. Inl NoValidInput) ?arnB ([] @ (?u, ?a) # [])
          = Inr (''arn:aws:iam::111:role/roleB'', ?u)"
    using role_selection_precedence [of "[]" ?arnB ?a "\<lambda>aps. Inl NoValidInput" ?u "[]"]
    by (simp add: role_name_def)
  moreover have "select_role_arn (\<lambda>aps. Inl NoValidInput) ?aliasA ([] @ (?u, ?a) # [])
          = Inr (''arn:aws:iam::111:role/roleA'', ?u)"
    using role_selection_precedence [of "[]" ?aliasA ?a "\<lambda>aps. Inl NoValidInput" ?u "[]"]
    by (simp add: role_name_def)
  moreover have "select_role_arn (\<lambda>aps. Inr (''asked'', ''user'')) ?arnC [(?u, ?a)]
          = Inl (SysExit 2)"
    using role_selection_precedence [of "[(?u, ?a)]" ?arnC _ "\<lambda>aps. Inr (''asked'', ''user'')"]
    by (simp add: role_name_def)
  moreover have "select_role_arn (\<lambda>aps. Inr (''asked'', ''user'')) ?nothing [(?u, ?a)]
          = Inr (''asked'', ''user'')"
    using role_selection_precedence [of "[(?u, ?a)]" ?nothing _ "\<lambda>aps. Inr (''asked'', ''user'')"]
    by (simp add: role_name_def)
  ultimately show ?thesis by blast
qed

text \<open>
  C4 as stated fails across sources: the alias names exactly one role, in the second
  source, but the first source lists the configured role ARN and is examined first, so
  the role ARN wins over the alias.
\<close>

theorem role_arn_in_earlier_source_beats_alias:
  "select_role_arn (\<lambda>aps. Inl NoValidInput)
     \<lparr>okta_username = None, okta_password = None, okta_org = None, okta_app_url = None,
      aws_profile = Some ''admin'', aws_role_arn = Some ''arn:aws:iam::111:role/dev'',
      aws_output = None, aws_region = None\<rparr>
     [(''https://acme.okta.com/home/amazon_aws/1'',
        \<lparr>app_roles = [''arn:aws:iam::111:role/dev''], app_label = ''one'',
         app_saml = [], app_saml_response_string = []\<rparr>),
      (''https://acme.okta.com/home/amazon_aws/2'',
        \<lparr>app_roles = [''arn:aws:iam::222:role/admin''], app_label = ''two'',
         app_saml = [], app_saml_response_string = []\<rparr>)]
   = Inr (''arn:aws:iam::111:role/dev'', ''https://acme.okta.com/home/amazon_aws/1'')"
  by (simp add: select_role_arn_def role_name_def role_names_def)

section \<open>Assertion extraction\<close>

lemma decode_fields_no_exit:
  "decode_fields decode xml inputs \<noteq> Inl (SysExit n)"
  by (induction inputs arbitrary: xml) (auto split: option.splits)

lemma decode_fields_none:
  "decode_fields decode xml inputs = Inr None \<longleftrightarrow> xml = None \<and> inputs = []"
proof (induction inputs arbitrary: xml)
  case Nil
  then show ?case by simp
next
  case (Cons elem rest)
  then show ?case by (auto split: option.splits)
qed

lemma decode_fields_decodable:
  assumes "\<forall>e \<in> set inputs. \<exists>v x. elem_get e ''value'' = Some v \<and> decode v = Some x"
  shows "\<exists>r. decode_fields decode xml inputs = Inr r"
  using assms
proof (induction inputs arbitrary: xml)
  case Nil
  then show ?case by simp
next
  case (Cons elem rest)
  then obtain v x where "elem_get elem ''value'' = Some v" "decode v = Some x" by auto
  with Cons show ?case by simp
qed

lemma decode_fields_append:
  "decode_fields decode xml (xs @ ys) =
     (case decode_fields decode xml xs of
        Inl e \<Rightarrow> Inl e
      | Inr xml' \<Rightarrow> decode_fields decode xml' ys)"
  by (induction xs arbitrary: xml) (auto split: option.splits)

text \<open>
  C6 (amended). Assertion extraction ends the invocation through \<^verbatim>\<open>sys.exit\<close> exactly
  when the markup holds no input field named \<^verbatim>\<open>SAMLResponse\<close>, and the status it exits
  with is 1, the class of a malformed response, not 2. (With a field present the
  function returns a value or raises while decoding, see C9.)
\<close>

theorem missing_assertion_exits_with_1:
  "validate_saml_response decode soup = Inl (SysExit n)
     \<longleftrightarrow> n = 1 \<and> find_all_saml_inputs soup = []"
proof (cases "decode_fields decode None (find_all_saml_inputs soup)")
  case (Inl e)
  then have "find_all_saml_inputs soup \<noteq> []" by auto
  moreover have "e \<noteq> SysExit n" using Inl decode_fields_no_exit by metis
  ultimately show ?thesis using Inl by (simp add: validate_saml_response_def)
next
  case (Inr r)
  show ?thesis
  proof (cases r)
    case None
    with Inr have "find_all_saml_inputs soup = []" by (simp add: decode_fields_none)
    with Inr None show ?thesis by (auto simp: validate_saml_response_def)
  next
    case (Some xml)
    with Inr have "find_all_saml_inputs soup \<noteq> []" by auto
    with Inr Some show ?thesis by (simp add: validate_saml_response_def)
  qed
qed

text \<open>
  C6 as stated fails on the exit status: a page without the field (a failed sign-in)
  exits with status 1.
\<close>

theorem missing_assertion_status_is_not_2:
  "validate_saml_response (map_of [(''PHNhbWw+'', ''<saml>'')])
     [Element ''html'' []
       [Element ''body'' []
         [Element ''form'' [(''action'', ''/login'')]
           [Element ''input'' [(''name'', ''username''), (''value'', ''jane'')] []],
          TextNode ''Sign in failed'']]]
   = Inl (SysExit 1)"
  by (simp add: validate_saml_response_def find_all_saml_inputs_def)

text \<open>
  C9 (amended). When the markup holds one or more input fields named \<^verbatim>\<open>SAMLResponse\<close>
  and every one of them before the last carries a value that decodes, the result is the
  decoded value of the last field in document order. Every matching field is decoded,
  not only the last.
\<close>

theorem last_field_decoded:
  assumes "find_all_saml_inputs soup = earlier @ [final]"
    and "\<forall>e \<in> set earlier. \<exists>v x. elem_get e ''value'' = Some v \<and> decode v = Some x"
    and "elem_get final ''value'' = Some v"
    and "decode v = Some xml"
  shows "validate_saml_response decode soup = Inr xml"
proof -
  obtain r where "decode_fields decode None earlier = Inr r"
    using decode_fields_decodable [OF assms(2)] by blast
  then have "decode_fields decode None (earlier @ [final]) = Inr (Some xml)"
    using assms(3,4) by (simp add: decode_fields_append)
  then show ?thesis
    using assms(1) by (simp add: validate_saml_response_def)
qed

theorem last_field_decoded_witness:
  "validate_saml_response (map_of [(''PHNhbWw+'', ''<saml>''), (''b2xk'', ''old'')])
     [Element ''html'' []
       [Element ''body'' []
         [Element ''form'' [(''action'', ''https://signin.aws.amazon.com/saml'')]
           [Element ''input'' [(''name'', ''SAMLResponse''), (''value'', ''b2xk'')] [],
            Element ''input'' [(''name'', ''RelayState''), (''value'', ''x'')] [],
            Element ''input'' [(''name'', ''SAMLResponse''), (''value'', ''PHNhbWw+'')] []]]]]
   = Inr ''<saml>''"
  by (rule last_field_decoded
        [where earlier = "[Element ''input'' [(''name'', ''SAMLResponse''), (''value'', ''b2xk'')] []]"
           and final = "Element ''input'' [(''name'', ''SAMLResponse''), (''value'', ''PHNhbWw+'')] []"
           and v = "''PHNhbWw+''"])
     (simp_all add: find_all_saml_inputs_def)

text \<open>
  C9 as stated fails when an earlier matching field cannot be decoded: a template field
  without a \<^verbatim>\<open>value\<close> in front of the real one makes the extraction raise, although the
  last field decodes.
\<close>

theorem earlier_field_not_ignored:
  "validate_saml_response (map_of [(''PHNhbWw+'', ''<saml>''), (''b2xk'', ''old'')])
     [Element ''html'' []
       [Element ''body'' []
         [Element ''form'' [(''action'', ''https://signin.aws.amazon.com/saml'')]
           [Element ''input'' [(''name'', ''SAMLResponse'')] [],
            Element ''input'' [(''name'', ''SAMLResponse''), (''value'', ''PHNhbWw+'')] []]]]]
   = Inl AttributeError"
  by (simp add: validate_saml_response_def find_all_saml_inputs_def)

section \<open>MFA option display\<close>

text \<open>
  What holds of the claim: an option whose \<^verbatim>\<open>profile\<close> is a dictionary, or whose
  sub-type does not read the profile, always gets a display value, and that value is
  never empty.
\<close>

lemma factor_type_info_with_profile:
  assumes "dict_get mfa_option ''profile'' = JObj p"
  shows "\<exists>info. factor_type_info factor_type mfa_option = Inr info"
  unfolding factor_type_info_def assms by simp

lemma mfa_option_info_with_profile:
  assumes "map_of mfa_option ''profile'' = Some (JObj p)"
  shows "\<exists>info. mfa_option_info mfa_option = Inr info \<and> json_truthy info"
proof (cases "map_of mfa_option ''factorType''")
  case None
  then show ?thesis by (simp add: mfa_option_info_def)
next
  case (Some factor_type)
  have "dict_get mfa_option ''profile'' = JObj p"
    using assms by (simp add: dict_get_def)
  then obtain info where "factor_type_info factor_type mfa_option = Inr info"
    using factor_type_info_with_profile by blast
  with Some show ?thesis by (simp add: mfa_option_info_def)
qed

lemma mfa_option_info_unknown_type:
  assumes "map_of mfa_option ''factorType'' = Some (JStr t)"
    and "t \<notin> set [''token'', ''token:software:totp'', ''token:hardware'', ''push'', ''sms'',
            ''call'', ''webauthn'', ''web'', ''u2f'', ''token:hotp'', ''question'', ''email'']"
  shows "mfa_option_info mfa_option = Inr (JStr ''Not Presented'')"
  using assms by (simp add: mfa_option_info_def factor_type_info_def)

text \<open>
  C7. The claim asks for the sentinel \<^verbatim>\<open>Not Presented\<close> when the whole profile object
  is absent. The code reads \<^verbatim>\<open>mfa_option.get("profile").get("name")\<close>: without a
  profile the first \<^verbatim>\<open>get\<close> gives \<^verbatim>\<open>None\<close> and the second raises \<^verbatim>\<open>AttributeError\<close>, so
  the fallback that \<^verbatim>\<open>mfa_option_info\<close> applies afterwards is never reached.
\<close>

theorem mfa_option_without_profile_raises:
  "mfa_option_info
     [(''id'', JStr ''opf3hkfocI4JTLAju0g4''), (''factorType'', JStr ''push''),
      (''provider'', JStr ''OKTA'')]
   = Inl AttributeError"
  by (simp add: mfa_option_info_def factor_type_info_def dict_get_def)

section \<open>Ini files\<close>

lemma map_add_cons:
  "m(k \<mapsto> v) ++ map_of (rev xs) = m ++ map_of (rev ((k, v) # xs))"
proof (rule ext)
  fix x
  show "(m(k \<mapsto> v) ++ map_of (rev xs)) x = (m ++ map_of (rev ((k, v) # xs))) x"
    by (cases "map_of (rev xs) x") (simp_all add: map_add_def)
qed

lemma set_all_section:
  assumes "profile \<noteq> []" "profile \<noteq> default_section"
    and "ini_sections p profile = Some sectdict"
  shows "set_all p profile kwargs =
           Inr (p\<lparr>ini_sections := (ini_sections p)(profile \<mapsto>
                  sectdict ++ map_of (rev (map (\<lambda>(key, val). (optionxform key, val)) kwargs)))\<rparr>)"
  using assms(3)
proof (induction kwargs arbitrary: p sectdict)
  case Nil
  have "(ini_sections p)(profile \<mapsto> sectdict) = ini_sections p"
    using Nil by (rule fun_upd_idem)
  then show ?case by simp
next
  case (Cons kv kwargs)
  obtain key val where kv: "kv = (key, val)" by (cases kv)
  define p' where "p' = p\<lparr>ini_sections :=
               (ini_sections p)(profile \<mapsto> sectdict(optionxform key \<mapsto> val))\<rparr>"
  define M where "M = map (\<lambda>(key, val). (optionxform key, val)) kwargs"
  have step: "ini_set p profile key val = Inr p'"
    using assms(1,2) Cons.prems by (simp add: ini_set_def p'_def)
  have "ini_sections p' profile = Some (sectdict(optionxform key \<mapsto> val))"
    by (simp add: p'_def)
  from Cons.IH [OF this]
  have ih: "set_all p' profile kwargs =
          Inr (p'\<lparr>ini_sections := (ini_sections p')(profile \<mapsto>
                 sectdict(optionxform key \<mapsto> val) ++ map_of (rev M))\<rparr>)"
    by (simp only: M_def)
  have rec: "p'\<lparr>ini_sections := (ini_sections p')(profile \<mapsto> X)\<rparr>
               = p\<lparr>ini_sections := (ini_sections p)(profile \<mapsto> X)\<rparr>" for X
    by (simp add: p'_def)
  have maps: "sectdict(optionxform key \<mapsto> val) ++ map_of (rev M)
                = sectdict ++ map_of (rev ((optionxform key, val) # M))"
    by (rule map_add_cons)
  have kw: "map (\<lambda>(key, val). (optionxform key, val)) (kv # kwargs)
              = (optionxform key, val) # M"
    by (simp add: kv M_def)
  have "set_all p profile (kv # kwargs) = set_all p' profile kwargs"
    using step kv by simp
  also have "\<dots> = Inr (p\<lparr>ini_sections := (ini_sections p)(profile \<mapsto>
                 sectdict ++ map_of (rev ((optionxform key, val) # M)))\<rparr>)"
    by (simp only: ih rec maps)
  finally show ?case by (simp only: kw)
qed
lemma map_of_rev_distinct:
  assumes "distinct (map fst xs)"
  shows "map_of (rev xs) = map_of xs"
proof -
  have "distinct (map fst (rev xs))" using assms by (simp add: rev_map [symmetric])
  moreover have "set (rev xs) = set xs" by simp
  ultimately show ?thesis using assms map_of_inject_set by blast
qed

lemma update_ini_result:
  assumes "profile \<noteq> []" "profile \<noteq> default_section"
  shows "update_ini True (Some p) True profile kwargs =
           Inr (p\<lparr>ini_sections := (ini_sections p)(profile \<mapsto>
                  (case ini_sections p profile of None \<Rightarrow> Map.empty | Some before \<Rightarrow> before)
                    ++ map_of (rev (map (\<lambda>(key, val). (optionxform key, val)) kwargs)))\<rparr>)"
proof (cases "ini_sections p profile")
  case None
  let ?p1 = "p\<lparr>ini_sections := (ini_sections p)(profile \<mapsto> Map.empty)\<rparr>"
  have "ini_sections ?p1 profile = Some Map.empty" by simp
  from set_all_section [OF assms this]
  have "set_all ?p1 profile kwargs =
          Inr (?p1\<lparr>ini_sections := (ini_sections ?p1)(profile \<mapsto>
                 Map.empty ++ map_of (rev (map (\<lambda>(key, val). (optionxform key, val)) kwargs)))\<rparr>)" .
  with None assms(2) show ?thesis
    by (simp add: update_ini_def has_section_def add_section_def)
next
  case (Some before)
  from set_all_section [OF assms Some]
  have "set_all p profile kwargs =
          Inr (p\<lparr>ini_sections := (ini_sections p)(profile \<mapsto>
                 before ++ map_of (rev (map (\<lambda>(key, val). (optionxform key, val)) kwargs)))\<rparr>)" .
  with Some show ?thesis
    by (simp add: update_ini_def has_section_def)
qed

text \<open>
  C2 (amended). The existing content parses to \<open>p\<close>, the directory and the file are
  usable, and the profile name is neither empty nor \<^verbatim>\<open>DEFAULT\<close>. Then \<^verbatim>\<open>update_ini\<close>
  writes a parser in which the default section and every section other than the
  addressed one are as they were; in the addressed section (created if absent) every
  option whose name is not the lower-cased form of a supplied key is as it was; and,
  when no two supplied keys agree after lower-casing, each supplied key is held in its
  lower-cased form with its supplied value.
\<close>

theorem update_ini_frame:
  assumes "profile \<noteq> []" and "profile \<noteq> ''DEFAULT''"
  shows "\<exists>written. update_ini True (Some p) True profile kwargs = Inr written
           \<and> ini_defaults written = ini_defaults p
           \<and> (\<forall>section. section \<noteq> profile \<longrightarrow>
                  ini_sections written section = ini_sections p section)
           \<and> (\<exists>sectdict. ini_sections written profile = Some sectdict
                \<and> (\<forall>key. key \<notin> optionxform ` fst ` set kwargs \<longrightarrow>
                       sectdict key = (case ini_sections p profile of
                                         None \<Rightarrow> None
                                       | Some before \<Rightarrow> before key))
                \<and> (distinct (map (optionxform \<circ> fst) kwargs) \<longrightarrow>
                       (\<forall>(key, val) \<in> set kwargs. sectdict (optionxform key) = Some val)))"
proof -
  define kw where "kw = map (\<lambda>(key, val). (optionxform key, val)) kwargs"
  define before where
    "before = (case ini_sections p profile of None \<Rightarrow> Map.empty | Some b \<Rightarrow> b)"
  define written where
    "written = p\<lparr>ini_sections := (ini_sections p)(profile \<mapsto> before ++ map_of (rev kw))\<rparr>"
  have nd: "profile \<noteq> default_section" using assms(2) by (simp add: default_section_def)
  have res: "update_ini True (Some p) True profile kwargs = Inr written"
    unfolding written_def before_def kw_def using assms(1) nd by (rule update_ini_result)
  have fst_kw: "map fst kw = map (optionxform \<circ> fst) kwargs"
    unfolding kw_def by (induction kwargs) auto
  have defaults: "ini_defaults written = ini_defaults p" by (simp add: written_def)
  have others: "\<forall>section. section \<noteq> profile \<longrightarrow>
                  ini_sections written section = ini_sections p section"
    by (simp add: written_def)
  have addressed: "ini_sections written profile = Some (before ++ map_of (rev kw))"
    by (simp add: written_def)
  have untouched: "\<forall>key. key \<notin> optionxform ` fst ` set kwargs \<longrightarrow>
         (before ++ map_of (rev kw)) key
           = (case ini_sections p profile of None \<Rightarrow> None | Some b \<Rightarrow> b key)"
  proof (intro allI impI)
    fix key
    assume "key \<notin> optionxform ` fst ` set kwargs"
    then have "key \<notin> set (map fst kw)" by (simp add: fst_kw image_image)
    then have "key \<notin> fst ` set (rev kw)" by simp
    then have "map_of (rev kw) key = None" by (simp add: map_of_eq_None_iff)
    then show "(before ++ map_of (rev kw)) key
                 = (case ini_sections p profile of None \<Rightarrow> None | Some b \<Rightarrow> b key)"
      by (simp add: map_add_def before_def split: option.splits)
  qed
  have held: "distinct (map (optionxform \<circ> fst) kwargs) \<longrightarrow>
         (\<forall>(key, val) \<in> set kwargs. (before ++ map_of (rev kw)) (optionxform key) = Some val)"
  proof (intro impI ballI, clarify)
    fix key val
    assume d: "distinct (map (optionxform \<circ> fst) kwargs)" and m: "(key, val) \<in> set kwargs"
    from d have dk: "distinct (map fst kw)" using fst_kw by metis
    from m have "(optionxform key, val) \<in> set kw" unfolding kw_def by force
    with dk have "map_of kw (optionxform key) = Some val" by simp
    with dk have "map_of (rev kw) (optionxform key) = Some val"
      by (simp add: map_of_rev_distinct)
    then show "(before ++ map_of (rev kw)) (optionxform key) = Some val" by simp
  qed
  have inner: "\<exists>sectdict. ini_sections written profile = Some sectdict
                \<and> (\<forall>key. key \<notin> optionxform ` fst ` set kwargs \<longrightarrow>
                       sectdict key = (case ini_sections p profile of
                                         None \<Rightarrow> None
                                       | Some before \<Rightarrow> before key))
                \<and> (distinct (map (optionxform \<circ> fst) kwargs) \<longrightarrow>
                       (\<forall>(key, val) \<in> set kwargs. sectdict (optionxform key) = Some val))"
  proof (rule exI [of _ "before ++ map_of (rev kw)"], intro conjI)
    show "ini_sections written profile = Some (before ++ map_of (rev kw))"
      by (rule addressed)
    show "\<forall>key. key \<notin> optionxform ` fst ` set kwargs \<longrightarrow>
         (before ++ map_of (rev kw)) key
           = (case ini_sections p profile of None \<Rightarrow> None | Some b \<Rightarrow> b key)"
      by (rule untouched)
    show "distinct (map (optionxform \<circ> fst) kwargs) \<longrightarrow>
         (\<forall>(key, val) \<in> set kwargs. (before ++ map_of (rev kw)) (optionxform key) = Some val)"
      by (rule held)
  qed
  show ?thesis
  proof (rule exI [of _ written], intro conjI)
    show "update_ini True (Some p) True profile kwargs = Inr written" by (rule res)
    show "ini_defaults written = ini_defaults p" by (rule defaults)
    show "\<forall>section. section \<noteq> profile \<longrightarrow>
            ini_sections written section = ini_sections p section" by (rule others)
    show "\<exists>sectdict. ini_sections written profile = Some sectdict
                \<and> (\<forall>key. key \<notin> optionxform ` fst ` set kwargs \<longrightarrow>
                       sectdict key = (case ini_sections p profile of
                                         None \<Rightarrow> None
                                       | Some before \<Rightarrow> before key))
                \<and> (distinct (map (optionxform \<circ> fst) kwargs) \<longrightarrow>
                       (\<forall>(key, val) \<in> set kwargs. sectdict (optionxform key) = Some val))"
      by (rule inner)
  qed
qed
theorem update_ini_frame_witness:
  "\<exists>written.
     update_ini True
       (Some \<lparr>ini_defaults = Map.empty, ini_sections = [''other'' \<mapsto> [''foo'' \<mapsto> ''bar'']]\<rparr>)
       True ''work''
       [(''aws_access_key_id'', ''AKIA''), (''aws_secret_access_key'', ''s3cr3t''),
        (''aws_session_token'', ''tok'')] = Inr written
     \<and> ini_sections written ''other'' = Some [''foo'' \<mapsto> ''bar'']
     \<and> (\<exists>sectdict. ini_sections written ''work'' = Some sectdict
           \<and> sectdict ''aws_access_key_id'' = Some ''AKIA''
           \<and> sectdict ''aws_secret_access_key'' = Some ''s3cr3t''
           \<and> sectdict ''aws_session_token'' = Some ''tok''
           \<and> sectdict ''foo'' = None)"
proof -
  let ?p = "\<lparr>ini_defaults = Map.empty, ini_sections = [''other'' \<mapsto> [''foo'' \<mapsto> ''bar'']]\<rparr>"
  let ?kw = "[(''aws_access_key_id'', ''AKIA''), (''aws_secret_access_key'', ''s3cr3t''),
        (''aws_session_token'', ''tok'')]"
  have keys: "map (optionxform \<circ> fst) ?kw
                = [''aws_access_key_id'', ''aws_secret_access_key'', ''aws_session_token'']"
    by (simp add: optionxform_def lower_def lower_char_def)
  have ne: "''work'' \<noteq> []" and nd: "''work'' \<noteq> ''DEFAULT''" by simp_all
  from update_ini_frame [OF ne nd, of ?p ?kw]
  obtain written sectdict where
    w: "update_ini True (Some ?p) True ''work'' ?kw = Inr written"
    and o: "\<forall>section. section \<noteq> ''work'' \<longrightarrow> ini_sections written section = ini_sections ?p section"
    and s: "ini_sections written ''work'' = Some sectdict"
    and u: "\<forall>key. key \<notin> optionxform ` fst ` set ?kw \<longrightarrow>
              sectdict key = (case ini_sections ?p ''work'' of None \<Rightarrow> None | Some before \<Rightarrow> before key)"
    and h: "distinct (map (optionxform \<circ> fst) ?kw) \<longrightarrow>
              (\<forall>(key, val) \<in> set ?kw. sectdict (optionxform key) = Some val)"
    by blast
  have "distinct (map (optionxform \<circ> fst) ?kw)" unfolding keys by simp
  with h have "\<forall>(key, val) \<in> set ?kw. sectdict (optionxform key) = Some val" by blast
  then have held: "sectdict ''aws_access_key_id'' = Some ''AKIA''"
    "sectdict ''aws_secret_access_key'' = Some ''s3cr3t''"
    "sectdict ''aws_session_token'' = Some ''tok''"
    by (simp_all add: optionxform_def lower_def lower_char_def)
  have "optionxform ` fst ` set ?kw = set (map (optionxform \<circ> fst) ?kw)"
    by (simp only: set_map image_comp)
  then have "''foo'' \<notin> optionxform ` fst ` set ?kw"
    unfolding keys by simp
  with u have "sectdict ''foo'' = None" by simp
  moreover from o have "ini_sections written ''other'' = Some [''foo'' \<mapsto> ''bar'']" by simp
  ultimately show ?thesis using w s held by blast
qed

text \<open>
  C2 as stated fails for the profile name \<^verbatim>\<open>DEFAULT\<close>, for which \<^verbatim>\<open>add_section\<close> raises
  and nothing is written; for a supplied key that differs from an existing option
  only in case: the existing option \<^verbatim>\<open>region\<close> is not among the supplied keys
  \<^verbatim>\<open>{Region}\<close>, yet it is overwritten; and for the empty profile name (the default of
  the parameter), for which an empty section is created and the keys go to the default
  section.
\<close>

theorem update_ini_default_profile_and_case:
  "update_ini True
     (Some \<lparr>ini_defaults = Map.empty, ini_sections = [''other'' \<mapsto> [''foo'' \<mapsto> ''bar'']]\<rparr>)
     True ''DEFAULT'' [(''region'', ''us-east-1'')] = Inl ValueError
   \<and> (case update_ini True
            (Some \<lparr>ini_defaults = Map.empty,
                   ini_sections = [''work'' \<mapsto> [''region'' \<mapsto> ''us-east-1'']]\<rparr>)
            True ''work'' [(''Region'', ''eu-west-1'')] of
         Inl e \<Rightarrow> False
       | Inr written \<Rightarrow>
           (case ini_sections written ''work'' of
              None \<Rightarrow> False
            | Some sectdict \<Rightarrow>
                sectdict ''region'' = Some ''eu-west-1'' \<and> sectdict ''Region'' = None))
   \<and> (case update_ini True
            (Some \<lparr>ini_defaults = Map.empty, ini_sections = [''other'' \<mapsto> [''foo'' \<mapsto> ''bar'']]\<rparr>)
            True [] [(''region'', ''us-east-1'')] of
         Inl e \<Rightarrow> False
       | Inr written \<Rightarrow>
           ini_defaults written ''region'' = Some ''us-east-1''
           \<and> (case ini_sections written [] of
                  None \<Rightarrow> False
                | Some sectdict \<Rightarrow> sectdict ''region'' = None))"
  by (simp add: update_ini_def has_section_def add_section_def ini_set_def
        default_section_def optionxform_def lower_def lower_char_def)

section \<open>Validation and sanitisation\<close>

text \<open>
  The origin of a plain \<^verbatim>\<open>https\<close> URL: when the host part is printable ASCII without
  \<^verbatim>\<open>/ ? # [ ]\<close> and what follows it is empty or starts a path, a query or a fragment,
  \<^verbatim>\<open>get_base_url\<close> returns the scheme and the host part.
\<close>

lemma clean_url_https:
  assumes "\<forall>c \<in> set host. CHR 0x20 < c"
  shows "clean_url (''https://'' @ host @ rest)
           = ''https://'' @ host @ filter (\<lambda>c. c \<notin> set unsafe_url_bytes) rest"
proof -
  have "filter (\<lambda>c. c \<notin> set unsafe_url_bytes) host = host"
    using assms by (auto simp: unsafe_url_bytes_def filter_id_conv)
  then show ?thesis by (simp add: clean_url_def unsafe_url_bytes_def)
qed

lemma split_scheme_https:
  "split_scheme (''https://'' @ t) = (''https'', ''//'' @ t)"
  by (simp add: split_scheme_def Let_def ascii_letters_def scheme_chars_def digits_def
        lower_def lower_char_def)

lemma split_netloc_host:
  assumes "\<forall>c \<in> set host. c \<notin> set ''/?#''" and "t = [] \<or> hd t \<in> set ''/?#''"
  shows "split_netloc (''//'' @ host @ t) = (host, t)"
proof -
  have stop: "takeWhile (\<lambda>c. c \<notin> set ''/?#'') t = []" "dropWhile (\<lambda>c. c \<notin> set ''/?#'') t = t"
    using assms(2) by (cases t; auto)+
  have "takeWhile (\<lambda>c. c \<notin> set ''/?#'') (host @ t) = host"
    using assms(1) stop(1) by (simp add: takeWhile_append2)
  moreover have "dropWhile (\<lambda>c. c \<notin> set ''/?#'') (host @ t) = t"
    using assms(1) stop(2) by (simp add: dropWhile_append2)
  ultimately show ?thesis by (simp add: split_netloc_def)
qed

lemma host_facts:
  assumes "\<forall>c \<in> set host. CHR 0x20 < c \<and> c < CHR 0x7F \<and> c \<notin> set ''/?#[]''"
  shows "\<forall>c \<in> set host. CHR 0x20 < c" and "\<forall>c \<in> set host. c \<notin> set ''/?#''"
    and "CHR ''['' \<notin> set host" and "CHR '']'' \<notin> set host"
    and "\<forall>c \<in> set host. c < CHR 0x80"
proof -
  show "\<forall>c \<in> set host. CHR 0x20 < c" using assms by blast
  show "\<forall>c \<in> set host. c \<notin> set ''/?#''" using assms by simp
  show "CHR ''['' \<notin> set host" using assms by fastforce
  show "CHR '']'' \<notin> set host" using assms by fastforce
  have "CHR 0x7F < CHR 0x80" by simp
  then show "\<forall>c \<in> set host. c < CHR 0x80" using assms by (meson order.strict_trans)
qed

lemma filtered_rest:
  assumes "rest = [] \<or> hd rest \<in> set ''/?#''"
  shows "filter (\<lambda>c. c \<notin> set unsafe_url_bytes) rest = []
         \<or> hd (filter (\<lambda>c. c \<notin> set unsafe_url_bytes) rest) \<in> set ''/?#''"
proof (cases rest)
  case Nil
  then show ?thesis by simp
next
  case (Cons c cs)
  with assms have "c \<in> set ''/?#''" by simp
  then have "c \<notin> set unsafe_url_bytes" by (auto simp: unsafe_url_bytes_def)
  with Cons \<open>c \<in> set ''/?#''\<close> show ?thesis by simp
qed

lemma urlparse_after_netloc:
  assumes "clean_url urlstring = ''https://'' @ host @ t"
    and "split_netloc (''//'' @ host @ t) = (host, t)"
    and "brackets_ok lib host" and "checknetloc lib host"
  shows "\<exists>u. urlparse lib urlstring = Inr u
          \<and> url_scheme u = ''https'' \<and> url_netloc u = host"
proof -
  obtain u3 fragment where f: "cut_at CHR ''#'' t = (u3, fragment)" by (cases "cut_at CHR ''#'' t")
  obtain u4 query where q: "cut_at CHR ''?'' u3 = (u4, query)" by (cases "cut_at CHR ''?'' u3")
  obtain path params where p: "split_params u4 = (path, params)" by (cases "split_params u4")
  have https: "''https'' \<in> set uses_params" by (simp add: uses_params_def)
  have "urlparse lib urlstring =
          Inr \<lparr>url_scheme = ''https'', url_netloc = host, url_path = path,
                url_params = params, url_query = query, url_fragment = fragment\<rparr>"
    unfolding urlparse_def assms(1) split_scheme_https
    using assms(2,3,4) f q p https by simp
  then show ?thesis by simp
qed

lemma get_base_url_https:
  assumes "\<forall>c \<in> set host. CHR 0x20 < c \<and> c < CHR 0x7F \<and> c \<notin> set ''/?#[]''"
    and "rest = [] \<or> hd rest \<in> set ''/?#''"
  shows "get_base_url lib (''https://'' @ host @ rest) = Inr (''https://'' @ host)"
proof -
  let ?t = "filter (\<lambda>c. c \<notin> set unsafe_url_bytes) rest"
  note h = host_facts [OF assms(1)]
  have clean: "clean_url (''https://'' @ host @ rest) = ''https://'' @ host @ ?t"
    using h(1) by (rule clean_url_https)
  have netloc: "split_netloc (''//'' @ host @ ?t) = (host, ?t)"
    using h(2) filtered_rest [OF assms(2)] by (rule split_netloc_host)
  have brackets: "brackets_ok lib host"
    using h(3,4) by (simp add: brackets_ok_def)
  have ascii: "checknetloc lib host"
    using h(5) by (simp add: checknetloc_def)
  obtain u where "urlparse lib (''https://'' @ host @ rest) = Inr u"
    and "url_scheme u = ''https''" and "url_netloc u = host"
    using urlparse_after_netloc [OF clean netloc brackets ascii] by blast
  then show ?thesis by (simp add: get_base_url_def)
qed

text \<open>
  C5 (amended). \<^verbatim>\<open>sanitize_config_values\<close> derives the organization URL from the app
  URL whenever an app URL is present, whether or not an organization URL was given and
  whatever it was: it becomes what \<^verbatim>\<open>get_base_url\<close> returns for the app URL, and when
  \<^verbatim>\<open>get_base_url\<close> raises on a malformed app URL, so does the sanitisation. For an app
  URL \<^verbatim>\<open>https://host...\<close> with a printable ASCII host without \<^verbatim>\<open>/ ? # [ ]\<close>, followed by
  nothing or by a path, query or fragment, the organization URL becomes the origin
  \<^verbatim>\<open>https://host\<close>. Without an app URL the organization URL is left alone; the app URL
  itself is never changed. \<^verbatim>\<open>validate_configuration\<close> does not accept a configuration
  in which both are present and the app URL does not start with the organization URL.
\<close>

theorem sanitize_sets_org_from_app_url:
  "(truthy (okta_app_url cfg) \<longrightarrow>
      (case get_base_url lib (the (okta_app_url cfg)) of
         Inl e \<Rightarrow> sanitize_config_values lib output_types regions defaults cfg = Inl e
       | Inr base_url \<Rightarrow>
           (\<exists>c'. sanitize_config_values lib output_types regions defaults cfg = Inr c'
              \<and> okta_org c' = Some base_url \<and> okta_app_url c' = okta_app_url cfg)))
   \<and> (okta_app_url cfg = Some (''https://'' @ host @ rest)
        \<and> (\<forall>ch \<in> set host. CHR 0x20 < ch \<and> ch < CHR 0x7F \<and> ch \<notin> set ''/?#[]'')
        \<and> (rest = [] \<or> hd rest \<in> set ''/?#'') \<longrightarrow>
      (\<exists>c'. sanitize_config_values lib output_types regions defaults cfg = Inr c'
         \<and> okta_org c' = Some (''https://'' @ host)))
   \<and> (\<not> truthy (okta_app_url cfg) \<longrightarrow>
      (\<exists>c'. sanitize_config_values lib output_types regions defaults cfg = Inr c'
         \<and> okta_org c' = okta_org cfg \<and> okta_app_url c' = okta_app_url cfg))
   \<and> (truthy (okta_org c) \<and> truthy (okta_app_url c)
        \<and> \<not> prefix (the (okta_org c)) (the (okta_app_url c))
      \<longrightarrow> validate_configuration lib c \<noteq> Inr [])"
proof (intro conjI impI)
  assume "truthy (okta_app_url cfg)"
  then show "case get_base_url lib (the (okta_app_url cfg)) of
         Inl e \<Rightarrow> sanitize_config_values lib output_types regions defaults cfg = Inl e
       | Inr base_url \<Rightarrow>
           (\<exists>c'. sanitize_config_values lib output_types regions defaults cfg = Inr c'
              \<and> okta_org c' = Some base_url \<and> okta_app_url c' = okta_app_url cfg)"
    by (cases "get_base_url lib (the (okta_app_url cfg))")
       (simp_all add: sanitize_config_values_def Let_def)
next
  assume a: "okta_app_url cfg = Some (''https://'' @ host @ rest)
        \<and> (\<forall>ch \<in> set host. CHR 0x20 < ch \<and> ch < CHR 0x7F \<and> ch \<notin> set ''/?#[]'')
        \<and> (rest = [] \<or> hd rest \<in> set ''/?#'')"
  then have app: "okta_app_url cfg = Some (''https://'' @ host @ rest)"
    and host: "\<forall>ch \<in> set host. CHR 0x20 < ch \<and> ch < CHR 0x7F \<and> ch \<notin> set ''/?#[]''"
    and rest: "rest = [] \<or> hd rest \<in> set ''/?#''"
    by blast+
  have base: "get_base_url lib (''https://'' @ host @ rest) = Inr (''https://'' @ host)"
    using host rest by (rule get_base_url_https)
  have "truthy (okta_app_url cfg)" and "the (okta_app_url cfg) = ''https://'' @ host @ rest"
    using app by simp_all
  then show "\<exists>c'. sanitize_config_values lib output_types regions defaults cfg = Inr c'
         \<and> okta_org c' = Some (''https://'' @ host)"
    unfolding sanitize_config_values_def by (simp only: if_True base) (simp add: Let_def)
next
  assume "\<not> truthy (okta_app_url cfg)"
  then show "\<exists>c'. sanitize_config_values lib output_types regions defaults cfg = Inr c'
         \<and> okta_org c' = okta_org cfg \<and> okta_app_url c' = okta_app_url cfg"
    by (simp add: sanitize_config_values_def Let_def)
next
  assume b: "truthy (okta_org c) \<and> truthy (okta_app_url c)
        \<and> \<not> prefix (the (okta_org c)) (the (okta_app_url c))"
  show "validate_configuration lib c \<noteq> Inr []"
  proof (cases "validate_okta_app_url lib (the (okta_app_url c))")
    case (Inl e)
    with b show ?thesis by (simp add: validate_configuration_def)
  next
    case app: (Inr app_valid)
    show ?thesis
    proof (cases "validate_okta_org_url lib (the (okta_org c))")
      case (Inl e)
      with b app show ?thesis by (simp add: validate_configuration_def)
    next
      case (Inr org_valid)
      with b app show ?thesis by (simp add: validate_configuration_def)
    qed
  qed
qed

text \<open>
  An app URL alone, an organization URL alone, both with different origins before
  validation, and an app URL with an unmatched bracket.
\<close>

theorem sanitize_sets_org_from_app_url_witness:
  "map_sum id okta_org
     (sanitize_config_values
        \<lparr>ipv6_address = (\<lambda>h. h = ''::1''), netloc_normal = (\<lambda>n. True)\<rparr>
        [''json''] [''us-east-1'']
        \<lparr>okta_username = None, okta_password = None, okta_org = None, okta_app_url = None,
         aws_profile = None, aws_role_arn = None,
         aws_output = Some ''json'', aws_region = Some ''us-east-1''\<rparr>
        \<lparr>okta_username = Some ''jane'', okta_password = Some ''pw'', okta_org = None,
         okta_app_url = Some ''https://acme.okta.com/home/amazon_aws/0oa1234567890abcdefg/272'',
         aws_profile = None, aws_role_arn = None,
         aws_output = Some ''json'', aws_region = Some ''us-east-1''\<rparr>)
     = Inr (Some ''https://acme.okta.com'')
   \<and> map_sum id okta_org
     (sanitize_config_values
        \<lparr>ipv6_address = (\<lambda>h. h = ''::1''), netloc_normal = (\<lambda>n. True)\<rparr>
        [''json''] [''us-east-1'']
        \<lparr>okta_username = None, okta_password = None, okta_org = None, okta_app_url = None,
         aws_profile = None, aws_role_arn = None,
         aws_output = Some ''json'', aws_region = Some ''us-east-1''\<rparr>
        \<lparr>okta_username = Some ''jane'', okta_password = Some ''pw'',
         okta_org = Some ''https://acme.okta.com'', okta_app_url = None,
         aws_profile = None, aws_role_arn = None,
         aws_output = Some ''json'', aws_region = Some ''us-east-1''\<rparr>)
     = Inr (Some ''https://acme.okta.com'')
   \<and> validate_configuration
        \<lparr>ipv6_address = (\<lambda>h. h = ''::1''), netloc_normal = (\<lambda>n. True)\<rparr>
        \<lparr>okta_username = Some ''jane'', okta_password = Some ''pw'',
         okta_org = Some ''https://other.okta.com'',
         okta_app_url = Some ''https://acme.okta.com/home/amazon_aws/0oa1234567890abcdefg/272'',
         aws_profile = None, aws_role_arn = None,
         aws_output = Some ''json'', aws_region = Some ''us-east-1''\<rparr> \<noteq> Inr []
   \<and> sanitize_config_values
        \<lparr>ipv6_address = (\<lambda>h. h = ''::1''), netloc_normal = (\<lambda>n. True)\<rparr>
        [''json''] [''us-east-1'']
        \<lparr>okta_username = None, okta_password = None, okta_org = None, okta_app_url = None,
         aws_profile = None, aws_role_arn = None,
         aws_output = Some ''json'', aws_region = Some ''us-east-1''\<rparr>
        \<lparr>okta_username = Some ''jane'', okta_password = Some ''pw'', okta_org = None,
         okta_app_url = Some ''https://[acme/x'',
         aws_profile = None, aws_role_arn = None,
         aws_output = Some ''json'', aws_region = Some ''us-east-1''\<rparr>
     = Inl ValueError"
proof -
  let ?lib = "\<lparr>ipv6_address = (\<lambda>h. h = ''::1''), netloc_normal = (\<lambda>n. True)\<rparr>"
  let ?d = "\<lparr>okta_username = None, okta_password = None, okta_org = None, okta_app_url = None,
       aws_profile = None, aws_role_arn = None,
       aws_output = Some ''json'', aws_region = Some ''us-east-1''\<rparr>"
  let ?app = "\<lparr>okta_username = Some ''jane'', okta_password = Some ''pw'', okta_org = None,
       okta_app_url = Some ''https://acme.okta.com/home/amazon_aws/0oa1234567890abcdefg/272'',
       aws_profile = None, aws_role_arn = None,
       aws_output = Some ''json'', aws_region = Some ''us-east-1''\<rparr>"
  let ?org = "\<lparr>okta_username = Some ''jane'', okta_password = Some ''pw'',
       okta_org = Some ''https://acme.okta.com'', okta_app_url = None,
       aws_profile = None, aws_role_arn = None,
       aws_output = Some ''json'', aws_region = Some ''us-east-1''\<rparr>"
  let ?both = "\<lparr>okta_username = Some ''jane'', okta_password = Some ''pw'',
       okta_org = Some ''https://other.okta.com'',
       okta_app_url = Some ''https://acme.okta.com/home/amazon_aws/0oa1234567890abcdefg/272'',
       aws_profile = None, aws_role_arn = None,
       aws_output = Some ''json'', aws_region = Some ''us-east-1''\<rparr>"
  let ?bad = "\<lparr>okta_username = Some ''jane'', okta_password = Some ''pw'', okta_org = None,
       okta_app_url = Some ''https://[acme/x'',
       aws_profile = None, aws_role_arn = None,
       aws_output = Some ''json'', aws_region = Some ''us-east-1''\<rparr>"
  note app_fact = sanitize_sets_org_from_app_url
    [of ?app ?lib "[''json'']" "[''us-east-1'']" ?d "''acme.okta.com''"
        "''/home/amazon_aws/0oa1234567890abcdefg/272''" ?both]
  have shape: "okta_app_url ?app = Some (''https://'' @ ''acme.okta.com''
                  @ ''/home/amazon_aws/0oa1234567890abcdefg/272'')
        \<and> (\<forall>ch \<in> set ''acme.okta.com''. CHR 0x20 < ch \<and> ch < CHR 0x7F \<and> ch \<notin> set ''/?#[]'')
        \<and> (''/home/amazon_aws/0oa1234567890abcdefg/272'' = []
             \<or> hd ''/home/amazon_aws/0oa1234567890abcdefg/272'' \<in> set ''/?#'')"
    by simp
  from app_fact have "\<exists>c'. sanitize_config_values ?lib [''json''] [''us-east-1''] ?d ?app = Inr c'
         \<and> okta_org c' = Some (''https://'' @ ''acme.okta.com'')"
    using shape by blast
  then have one: "map_sum id okta_org
        (sanitize_config_values ?lib [''json''] [''us-east-1''] ?d ?app)
          = Inr (Some ''https://acme.okta.com'')"
    by auto
  have mismatch: "truthy (okta_org ?both) \<and> truthy (okta_app_url ?both)
        \<and> \<not> prefix (the (okta_org ?both)) (the (okta_app_url ?both))"
    by simp
  from app_fact have three: "validate_configuration ?lib ?both \<noteq> Inr []"
    using mismatch by blast
  note org_fact = sanitize_sets_org_from_app_url
    [of ?org ?lib "[''json'']" "[''us-east-1'']" ?d "[]" "[]" ?both]
  have "\<not> truthy (okta_app_url ?org)" by simp
  with org_fact have "\<exists>c'. sanitize_config_values ?lib [''json''] [''us-east-1''] ?d ?org = Inr c'
         \<and> okta_org c' = okta_org ?org \<and> okta_app_url c' = okta_app_url ?org"
    by blast
  then have two: "map_sum id okta_org
        (sanitize_config_values ?lib [''json''] [''us-east-1''] ?d ?org)
          = Inr (Some ''https://acme.okta.com'')"
    by auto
  note bad_fact = sanitize_sets_org_from_app_url
    [of ?bad ?lib "[''json'']" "[''us-east-1'']" ?d "[]" "[]" ?both]
  have raises: "get_base_url ?lib ''https://[acme/x'' = Inl ValueError"
    by code_simp
  have "truthy (okta_app_url ?bad)" by simp
  with bad_fact have "case get_base_url ?lib (the (okta_app_url ?bad)) of
         Inl e \<Rightarrow> sanitize_config_values ?lib [''json''] [''us-east-1''] ?d ?bad = Inl e
       | Inr base_url \<Rightarrow>
           (\<exists>c'. sanitize_config_values ?lib [''json''] [''us-east-1''] ?d ?bad = Inr c'
              \<and> okta_org c' = Some base_url \<and> okta_app_url c' = okta_app_url ?bad)"
    by blast
  then have four: "sanitize_config_values ?lib [''json''] [''us-east-1''] ?d ?bad
                     = Inl ValueError"
    by (simp add: raises)
  from one two three four show ?thesis by (intro conjI)
qed

text \<open>
  C5 as stated fails when both URLs are given with different origins: sanitisation
  rewrites the organization URL from the app URL all the same, and the configuration
  it leaves behind passes validation instead of being rejected.
\<close>

theorem org_url_rewritten_when_both_given:
  "sanitize_config_values
      \<lparr>ipv6_address = (\<lambda>h. h = ''::1''), netloc_normal = (\<lambda>n. True)\<rparr>
      [''json''] [''us-east-1'']
      \<lparr>okta_username = None, okta_password = None, okta_org = None, okta_app_url = None,
       aws_profile = None, aws_role_arn = None,
       aws_output = Some ''json'', aws_region = Some ''us-east-1''\<rparr>
      \<lparr>okta_username = Some ''jane'', okta_password = Some ''pw'',
       okta_org = Some ''https://other.okta.com'',
       okta_app_url = Some ''https://acme.okta.com/home/amazon_aws/0oa1234567890abcdefg/272'',
       aws_profile = None, aws_role_arn = None,
       aws_output = Some ''json'', aws_region = Some ''us-east-1''\<rparr>
     = Inr \<lparr>okta_username = Some ''jane'', okta_password = Some ''pw'',
       okta_org = Some ''https://acme.okta.com'',
       okta_app_url = Some ''https://acme.okta.com/home/amazon_aws/0oa1234567890abcdefg/272'',
       aws_profile = None, aws_role_arn = None,
       aws_output = Some ''json'', aws_region = Some ''us-east-1''\<rparr>
   \<and> validate_configuration
      \<lparr>ipv6_address = (\<lambda>h. h = ''::1''), netloc_normal = (\<lambda>n. True)\<rparr>
      \<lparr>okta_username = Some ''jane'', okta_password = Some ''pw'',
       okta_org = Some ''https://acme.okta.com'',
       okta_app_url = Some ''https://acme.okta.com/home/amazon_aws/0oa1234567890abcdefg/272'',
       aws_profile = None, aws_role_arn = None,
       aws_output = Some ''json'', aws_region = Some ''us-east-1''\<rparr>
     = Inr []"
proof -
  let ?lib = "\<lparr>ipv6_address = (\<lambda>h. h = ''::1''), netloc_normal = (\<lambda>n. True)\<rparr>"
  have base: "get_base_url ?lib ''https://acme.okta.com/home/amazon_aws/0oa1234567890abcdefg/272''
                = Inr ''https://acme.okta.com''"
    by code_simp
  have app: "validate_okta_app_url ?lib
               ''https://acme.okta.com/home/amazon_aws/0oa1234567890abcdefg/272'' = Inr True"
    by code_simp
  have org: "validate_okta_org_url ?lib ''https://acme.okta.com'' = Inr True"
    by code_simp
  show ?thesis
    by (simp add: sanitize_config_values_def validate_configuration_def base app org)
qed

section \<open>Account aliases\<close>

lemma str_contains_shorter:
  "str_contains (a @ b) s \<Longrightarrow> str_contains a s"
  by (induction s) (auto dest: append_prefixD)

lemma no_marker_no_label:
  assumes "\<not> str_contains ''Account:'' body"
  shows "\<not> str_contains ''Account: '' body"
  using assms str_contains_shorter [of "''Account:''" "'' ''" body] by auto

lemma get_account_aliases_no_marker:
  assumes "form_action w page = Some url"
    and "post w url (b64encode w saml_xml) = Some body"
    and "\<not> str_contains ''Account:'' body"
  shows "get_account_aliases w saml_xml page = Inr None"
  using assms no_marker_no_label by (simp add: get_account_aliases_def)

lemma alias_rows_without_table:
  assumes "\<forall>role \<in> set rs. 4 < length (split_on CHR '':'' role)"
  shows "alias_rows url lbl None rs =
           Inr (map (\<lambda>role. (lbl, split_on CHR '':'' role ! 4, role, url)) rs)"
  using assms by (induction rs) (simp_all add: index_def)

lemma aliases_mapping_no_marker:
  assumes "\<forall>(url, a) \<in> set aut_aps.
             \<exists>target body. form_action w (app_saml_response_string a) = Some target
               \<and> post w target (b64encode w (app_saml a)) = Some body
               \<and> \<not> str_contains ''Account:'' body"
    and "\<forall>(url, a) \<in> set aut_aps. \<forall>role \<in> set (app_roles a).
             4 < length (split_on CHR '':'' role)"
  shows "aliases_mapping w aut_aps = Inr (account_rows aut_aps)"
  using assms
proof (induction aut_aps)
  case Nil
  then show ?case by simp
next
  case (Cons x aut_aps)
  obtain url a where x: "x = (url, a)" by (cases x)
  from Cons.prems(1) x obtain target body where
    "form_action w (app_saml_response_string a) = Some target"
    "post w target (b64encode w (app_saml a)) = Some body"
    "\<not> str_contains ''Account:'' body"
    by auto
  then have none: "get_account_aliases w (app_saml a) (app_saml_response_string a) = Inr None"
    by (rule get_account_aliases_no_marker)
  have rows: "alias_rows url (app_label a) None (app_roles a) =
          Inr (map (\<lambda>role. (app_label a, split_on CHR '':'' role ! 4, role, url)) (app_roles a))"
    using Cons.prems(2) x by (intro alias_rows_without_table) auto
  have "aliases_mapping w aut_aps = Inr (account_rows aut_aps)"
    using Cons.prems by (intro Cons.IH) auto
  with none rows x show ?case by simp
qed

lemma collect_integer_valid:
  assumes "\<exists>x \<in> set typed. 0 \<le> x \<and> x < int n"
  shows "\<exists>i. collect_integer n typed = Some i \<and> i < n"
proof -
  from assms have "find (\<lambda>x. 0 \<le> x \<and> x < int n) typed \<noteq> None"
    by (auto simp: find_None_iff)
  then obtain x where f: "find (\<lambda>x. 0 \<le> x \<and> x < int n) typed = Some x" by auto
  then have "0 \<le> x \<and> x < int n" by (auto simp: find_Some_iff)
  with f show ?thesis by (auto simp: collect_integer_def)
qed

text \<open>
  C8. Every application's alias lookup gets a response (the page has a form and the
  POST returns) whose body does not contain \<^verbatim>\<open>Account:\<close>; the roles are ARNs, with at
  least five fields between colons; there is at least one role; the user at some point
  types one of the offered numbers. Then \<^verbatim>\<open>get_account_aliases\<close> returns \<^verbatim>\<open>None\<close> for every
  application, every row of the menu carries the fifth colon-separated field of its
  role as the label, and \<^verbatim>\<open>prompt_role_choices\<close> returns a role of the menu with its URL:
  nothing raises or exits.
\<close>

theorem no_aliases_is_not_fatal:
  assumes "\<forall>(url, a) \<in> set aut_aps.
             \<exists>target body. form_action w (app_saml_response_string a) = Some target
               \<and> post w target (b64encode w (app_saml a)) = Some body
               \<and> \<not> str_contains ''Account:'' body"
    and "\<forall>(url, a) \<in> set aut_aps. \<forall>role \<in> set (app_roles a).
             4 < length (split_on CHR '':'' role)"
    and "account_rows aut_aps \<noteq> []"
    and "\<exists>x \<in> set (answers w). 0 \<le> x \<and> x < int (length (account_rows aut_aps))"
  shows "(\<forall>(url, a) \<in> set aut_aps.
            get_account_aliases w (app_saml a) (app_saml_response_string a) = Inr None)
       \<and> aliases_mapping w aut_aps = Inr (account_rows aut_aps)
       \<and> (\<exists>lbl role url.
            prompt_role_choices w aut_aps = Inr (role, url)
            \<and> (lbl, split_on CHR '':'' role ! 4, role, url) \<in> set (account_rows aut_aps))"
proof (intro conjI)
  show "\<forall>(url, a) \<in> set aut_aps.
          get_account_aliases w (app_saml a) (app_saml_response_string a) = Inr None"
    using assms(1) get_account_aliases_no_marker by fastforce
next
  show "aliases_mapping w aut_aps = Inr (account_rows aut_aps)"
    using assms(1,2) by (rule aliases_mapping_no_marker)
next
  let ?rows = "account_rows aut_aps"
  have m: "aliases_mapping w aut_aps = Inr ?rows"
    using assms(1,2) by (rule aliases_mapping_no_marker)
  obtain i where i: "collect_integer (length (sort ?rows)) (answers w) = Some i"
    and lt: "i < length (sort ?rows)"
    using collect_integer_valid [of "answers w" "length (sort ?rows)"] assms(4) by auto
  obtain lbl shown role url where r: "sort ?rows ! i = (lbl, shown, role, url)"
    by (cases "sort ?rows ! i") auto
  have "sort ?rows ! i \<in> set (sort ?rows)" using lt by (rule nth_mem)
  then have mem: "(lbl, shown, role, url) \<in> set ?rows" using r by simp
  then have "shown = split_on CHR '':'' role ! 4" by auto
  with mem have "(lbl, split_on CHR '':'' role ! 4, role, url) \<in> set ?rows" by simp
  moreover have "prompt_role_choices w aut_aps = Inr (role, url)"
    using m assms(3) i r by (simp add: prompt_role_choices_def)
  ultimately show "\<exists>lbl role url.
            prompt_role_choices w aut_aps = Inr (role, url)
            \<and> (lbl, split_on CHR '':'' role ! 4, role, url) \<in> set ?rows"
    by blast
qed
theorem no_aliases_is_not_fatal_witness:
  "get_account_aliases
     \<lparr>form_action = (\<lambda>page. Some ''https://signin.aws.amazon.com/saml''),
      b64encode = (\<lambda>xml. xml),
      post = (\<lambda>target data. Some ''<html><body>Select a role</body></html>''),
      account_texts = (\<lambda>body. []),
      answers = [7, 1]\<rparr>
     ''<saml/>'' ''<form action=x>'' = Inr None
   \<and> aliases_mapping
     \<lparr>form_action = (\<lambda>page. Some ''https://signin.aws.amazon.com/saml''),
      b64encode = (\<lambda>xml. xml),
      post = (\<lambda>target data. Some ''<html><body>Select a role</body></html>''),
      account_texts = (\<lambda>body. []),
      answers = [7, 1]\<rparr>
     [(''https://acme.okta.com/home/amazon_aws/1'',
       \<lparr>app_roles = [''arn:aws:iam::222:role/dev'', ''arn:aws:iam::111:role/admin''],
        app_label = ''AWS'', app_saml = ''<saml/>'',
        app_saml_response_string = ''<form action=x>''\<rparr>)]
     = Inr [(''AWS'', ''222'', ''arn:aws:iam::222:role/dev'',
             ''https://acme.okta.com/home/amazon_aws/1''),
            (''AWS'', ''111'', ''arn:aws:iam::111:role/admin'',
             ''https://acme.okta.com/home/amazon_aws/1'')]
   \<and> prompt_role_choices
     \<lparr>form_action = (\<lambda>page. Some ''https://signin.aws.amazon.com/saml''),
      b64encode = (\<lambda>xml. xml),
      post = (\<lambda>target data. Some ''<html><body>Select a role</body></html>''),
      account_texts = (\<lambda>body. []),
      answers = [7, 1]\<rparr>
     [(''https://acme.okta.com/home/amazon_aws/1'',
       \<lparr>app_roles = [''arn:aws:iam::222:role/dev'', ''arn:aws:iam::111:role/admin''],
        app_label = ''AWS'', app_saml = ''<saml/>'',
        app_saml_response_string = ''<form action=x>''\<rparr>)]
     = Inr (''arn:aws:iam::222:role/dev'', ''https://acme.okta.com/home/amazon_aws/1'')"
proof -
  let ?w = "\<lparr>form_action = (\<lambda>page. Some ''https://signin.aws.amazon.com/saml''),
      b64encode = (\<lambda>xml. xml),
      post = (\<lambda>target data. Some ''<html><body>Select a role</body></html>''),
      account_texts = (\<lambda>body. []),
      answers = [7, 1]\<rparr>"
  let ?u = "''https://acme.okta.com/home/amazon_aws/1''"
  let ?a = "\<lparr>app_roles = [''arn:aws:iam::222:role/dev'', ''arn:aws:iam::111:role/admin''],
        app_label = ''AWS'', app_saml = ''<saml/>'',
        app_saml_response_string = ''<form action=x>''\<rparr>"
  have rows: "account_rows [(?u, ?a)]
                = [(''AWS'', ''222'', ''arn:aws:iam::222:role/dev'', ?u),
                   (''AWS'', ''111'', ''arn:aws:iam::111:role/admin'', ?u)]"
    by simp
  have h1: "\<forall>(url, a) \<in> set [(?u, ?a)].
             \<exists>target body. form_action ?w (app_saml_response_string a) = Some target
               \<and> post ?w target (b64encode ?w (app_saml a)) = Some body
               \<and> \<not> str_contains ''Account:'' body"
    by simp
  have h2: "\<forall>(url, a) \<in> set [(?u, ?a)]. \<forall>role \<in> set (app_roles a).
             4 < length (split_on CHR '':'' role)"
    by simp
  have h3: "account_rows [(?u, ?a)] \<noteq> []"
    unfolding rows by simp
  have h4: "\<exists>x \<in> set (answers ?w). 0 \<le> x \<and> x < int (length (account_rows [(?u, ?a)]))"
    unfolding rows by simp
  note fact = no_aliases_is_not_fatal [OF h1 h2 h3 h4]
  have every: "\<forall>(url, a) \<in> set [(?u, ?a)].
            get_account_aliases ?w (app_saml a) (app_saml_response_string a) = Inr None"
    by (rule conjunct1 [OF fact])
  have m: "aliases_mapping ?w [(?u, ?a)] = Inr (account_rows [(?u, ?a)])"
    by (rule conjunct1 [OF conjunct2 [OF fact]])
  from every have none: "get_account_aliases ?w ''<saml/>'' ''<form action=x>'' = Inr None"
    by simp
  have sorted_rows: "sort [(''AWS'', ''222'', ''arn:aws:iam::222:role/dev'', ?u),
                   (''AWS'', ''111'', ''arn:aws:iam::111:role/admin'', ?u)]
        = [(''AWS'', ''111'', ''arn:aws:iam::111:role/admin'', ?u),
           (''AWS'', ''222'', ''arn:aws:iam::222:role/dev'', ?u)]"
    by code_simp
  have "prompt_role_choices ?w [(?u, ?a)] = Inr (''arn:aws:iam::222:role/dev'', ?u)"
    unfolding prompt_role_choices_def m rows
    by (simp add: sorted_rows collect_integer_def)
  with none m rows show ?thesis by simp
qed

section \<open>ARN extraction\<close>

lemma split_on_cut_at:
  "split_on sep s =
     fst (cut_at sep s) # (if sep \<in> set s then split_on sep (snd (cut_at sep s)) else [])"
proof (induction s)
  case Nil
  then show ?case by (simp add: cut_at_def)
next
  case (Cons c cs)
  show ?case
  proof (cases "c = sep")
    case True
    then show ?thesis by (simp add: cut_at_def)
  next
    case False
    have "fst (cut_at sep (c # cs)) = c # fst (cut_at sep cs)"
      and "snd (cut_at sep (c # cs)) = snd (cut_at sep cs)"
      using False by (simp_all add: cut_at_def)
    with False Cons.IH show ?thesis by simp
  qed
qed

lemma split_on_first:
  "index (split_on sep s) 0 = Inr (fst (cut_at sep s))"
  by (subst split_on_cut_at) (simp add: index_def)

lemma split_on_second:
  assumes "sep \<in> set s"
  shows "index (split_on sep s) 1 = Inr (fst (cut_at sep (snd (cut_at sep s))))"
proof -
  have "split_on sep s = fst (cut_at sep s) # split_on sep (snd (cut_at sep s))"
    using assms by (subst split_on_cut_at) simp
  also have "split_on sep (snd (cut_at sep s)) =
      fst (cut_at sep (snd (cut_at sep s)))
        # (if sep \<in> set (snd (cut_at sep s))
           then split_on sep (snd (cut_at sep (snd (cut_at sep s)))) else [])"
    by (rule split_on_cut_at)
  finally show ?thesis by (simp add: index_def)
qed

lemma cut_at_single:
  "count_list s sep = 1 \<Longrightarrow> fst (cut_at sep (snd (cut_at sep s))) = snd (cut_at sep s)"
proof (induction s)
  case Nil
  then show ?case by simp
next
  case (Cons c cs)
  show ?case
  proof (cases "c = sep")
    case True
    with Cons.prems have "sep \<notin> set cs" by (simp add: count_list_0_iff)
    then have "takeWhile (\<lambda>x. x \<noteq> sep) cs = cs" by (auto simp: takeWhile_eq_all_conv)
    with True show ?thesis by (simp add: cut_at_def)
  next
    case False
    with Cons.prems have "count_list cs sep = 1" by simp
    then have ih: "fst (cut_at sep (snd (cut_at sep cs))) = snd (cut_at sep cs)"
      by (rule Cons.IH)
    have "snd (cut_at sep (c # cs)) = snd (cut_at sep cs)"
      using False by (simp add: cut_at_def)
    with ih show ?thesis by (simp only:)
  qed
qed

text \<open>What a lazy \<^verbatim>\<open>.*?\<close> matched inherits every property of the continuation's match
  that survives putting a character in front.\<close>

lemma lazy_any_result:
  assumes "\<And>s r. k s = Some r \<Longrightarrow> P r" and "\<And>c r. P r \<Longrightarrow> P (c # r)"
  shows "lazy_any k s = Some m \<Longrightarrow> P m"
proof (induction s arbitrary: m)
  case Nil
  then show ?case using assms(1) by simp
next
  case (Cons c cs)
  show ?case
  proof (cases "k (c # cs)")
    case (Some r)
    with Cons.prems assms(1) show ?thesis by simp
  next
    case None
    with Cons.prems obtain r where "lazy_any k cs = Some r" "m = c # r"
      by (auto split: if_splits)
    with Cons.IH assms(2) show ?thesis by simp
  qed
qed

lemma literal_result:
  "literal lit k s = Some m \<Longrightarrow> \<exists>r. m = lit @ r"
  by (auto simp: literal_def split: if_splits)

lemma match_at_has_comma:
  assumes "match_at s = Some g"
  shows "CHR '','' \<in> set g"
proof -
  let ?inner = "literal ('','' @ arn_marker) (lazy_any closing)"
  from assms obtain r where g: "g = arn_marker @ r"
    and r: "lazy_any ?inner (drop (length arn_marker) (tl s)) = Some r"
    by (auto simp: match_at_def literal_def split: if_splits)
  have "CHR '','' \<in> set r"
  proof (rule lazy_any_result [of ?inner "\<lambda>r. CHR '','' \<in> set r", OF _ _ r])
    fix s' r'
    assume "?inner s' = Some r'"
    then obtain t where "r' = ('','' @ arn_marker) @ t" using literal_result by blast
    then show "CHR '','' \<in> set r'" by simp
  next
    fix c :: char and r'
    assume "CHR '','' \<in> set r'"
    then show "CHR '','' \<in> set (c # r')" by simp
  qed
  with g show ?thesis by simp
qed

lemma findall_arns_have_comma:
  "\<forall>g \<in> set (findall_arns s). CHR '','' \<in> set g"
proof (induction s rule: findall_arns.induct)
  case 1
  then show ?case by simp
next
  case (2 c cs)
  show ?case
  proof (cases "match_at (c # cs)")
    case None
    with 2 show ?thesis by simp
  next
    case (Some g)
    with 2 match_at_has_comma show ?thesis by auto
  qed
qed

lemma arns_dict_fold:
  assumes "\<forall>i \<in> set arns. CHR '','' \<in> set i"
  shows "arns_dict d arns = Inr (fold (\<lambda>i. AList.update (role_of i) (provider_of i)) arns d)"
  using assms
proof (induction arns arbitrary: d)
  case Nil
  then show ?case by simp
next
  case (Cons i arns)
  then have "CHR '','' \<in> set i" by simp
  then have "index (split_on CHR '','' i) 1 = Inr (role_of i)" by (rule split_on_second)
  moreover have "index (split_on CHR '','' i) 0 = Inr (provider_of i)" by (rule split_on_first)
  ultimately show ?case using Cons by simp
qed

lemma fold_update_map_of:
  "map_of (fold (\<lambda>i. AList.update (f i) (g i)) xs d)
     = map_of d ++ map_of (rev (map (\<lambda>i. (f i, g i)) xs))"
proof (induction xs arbitrary: d)
  case Nil
  then show ?case by simp
next
  case (Cons x xs)
  have "map_of (AList.update (f x) (g x) d) ++ m = map_of d ++ (map_of [(f x, g x)] ++ m)" for m
    by (rule ext) (simp add: update_conv' map_add_def split: option.splits)
  with Cons show ?case by (simp only: fold_simps list.map rev.simps map_of_append)
qed

lemma fold_update_distinct:
  "distinct (map fst d) \<Longrightarrow> distinct (map fst (fold (\<lambda>i. AList.update (f i) (g i)) xs d))"
  by (induction xs arbitrary: d) (simp_all add: distinct_update)

lemma fold_update_length:
  "length (fold (\<lambda>i. AList.update (f i) (g i)) xs d) \<le> length d + length xs"
proof (induction xs arbitrary: d)
  case Nil
  then show ?case by simp
next
  case (Cons x xs)
  have "length (AList.update k v al) \<le> Suc (length al)" for k :: 'a and v :: 'b and al
    by (induction al) simp_all
  then have "length (AList.update (f x) (g x) d) \<le> Suc (length d)" .
  with Cons [of "AList.update (f x) (g x) d"] show ?case by simp
qed

text \<open>
  What \<^verbatim>\<open>extract_arns\<close> computes. When the pattern matches at least once it returns a
  dictionary with one entry per distinct key, where for each match the text before the
  first comma is the value and the text between the first comma and the next comma, or
  the end of the match when there is no further comma, is the key. A later match with
  the same key replaces the value of an earlier one, so there are at most as many
  bindings as matches. For a match with exactly one comma the key is all the text after
  that comma, the role ARN.
\<close>

theorem extract_arns_bindings:
  assumes "findall_arns saml \<noteq> []"
  shows "\<exists>d. extract_arns saml = Inr d
           \<and> distinct (map fst d)
           \<and> map_of d = map_of (rev (map (\<lambda>i. (role_of i, provider_of i)) (findall_arns saml)))
           \<and> length d \<le> length (findall_arns saml)
           \<and> (\<forall>i \<in> set (findall_arns saml).
                 count_list i CHR '','' = 1 \<longrightarrow> role_of i = snd (cut_at CHR '','' i))"
proof -
  let ?arns = "findall_arns saml"
  let ?d = "fold (\<lambda>i. AList.update (role_of i) (provider_of i)) ?arns []"
  have "arns_dict [] ?arns = Inr ?d"
    using findall_arns_have_comma by (rule arns_dict_fold)
  with assms have "extract_arns saml = Inr ?d"
    by (simp add: extract_arns_def Let_def)
  moreover have "distinct (map fst ?d)"
    by (rule fold_update_distinct) simp
  moreover have "map_of ?d = map_of (rev (map (\<lambda>i. (role_of i, provider_of i)) ?arns))"
    by (simp add: fold_update_map_of)
  moreover have "length ?d \<le> length ?arns"
    using fold_update_length [of role_of provider_of ?arns "[]"] by simp
  moreover have "\<forall>i \<in> set ?arns. count_list i CHR '','' = 1 \<longrightarrow> role_of i = snd (cut_at CHR '','' i)"
    using cut_at_single by blast
  ultimately show ?thesis by blast
qed
text \<open>
  Two matches that name the same role: one binding is returned, with the provider of the
  later match.
\<close>

theorem extract_arns_bindings_witness:
  "findall_arns
     ''<a>arn:aws:iam::1:saml-provider/okta,arn:aws:iam::1:role/dev</a><a>arn:aws:iam::1:saml-provider/alt,arn:aws:iam::1:role/dev</a>''
     = [''arn:aws:iam::1:saml-provider/okta,arn:aws:iam::1:role/dev'',
        ''arn:aws:iam::1:saml-provider/alt,arn:aws:iam::1:role/dev'']
   \<and> (\<exists>d. extract_arns
           ''<a>arn:aws:iam::1:saml-provider/okta,arn:aws:iam::1:role/dev</a><a>arn:aws:iam::1:saml-provider/alt,arn:aws:iam::1:role/dev</a>''
           = Inr d
         \<and> distinct (map fst d)
         \<and> length d \<le> 2
         \<and> map_of d ''arn:aws:iam::1:role/dev'' = Some ''arn:aws:iam::1:saml-provider/alt'')
   \<and> extract_arns
         ''<a>arn:aws:iam::1:saml-provider/okta,arn:aws:iam::1:role/dev</a><a>arn:aws:iam::1:saml-provider/alt,arn:aws:iam::1:role/dev</a>''
       = Inr [(''arn:aws:iam::1:role/dev'', ''arn:aws:iam::1:saml-provider/alt'')]"
proof -
  let ?saml = "''<a>arn:aws:iam::1:saml-provider/okta,arn:aws:iam::1:role/dev</a><a>arn:aws:iam::1:saml-provider/alt,arn:aws:iam::1:role/dev</a>''"
  let ?g1 = "''arn:aws:iam::1:saml-provider/okta,arn:aws:iam::1:role/dev''"
  let ?g2 = "''arn:aws:iam::1:saml-provider/alt,arn:aws:iam::1:role/dev''"
  have found: "findall_arns ?saml = [?g1, ?g2]"
    by (simp add: match_at_def literal_def arn_marker_def closing_def)
  then have ne: "findall_arns ?saml \<noteq> []" by simp
  have cuts: "role_of ?g1 = ''arn:aws:iam::1:role/dev''" "provider_of ?g1 = ''arn:aws:iam::1:saml-provider/okta''"
    "role_of ?g2 = ''arn:aws:iam::1:role/dev''" "provider_of ?g2 = ''arn:aws:iam::1:saml-provider/alt''"
    by (simp_all add: cut_at_def)
  from extract_arns_bindings [OF ne]
  obtain d where d: "extract_arns ?saml = Inr d" and dist: "distinct (map fst d)"
    and m: "map_of d = map_of (rev (map (\<lambda>i. (role_of i, provider_of i)) (findall_arns ?saml)))"
    and len: "length d \<le> length (findall_arns ?saml)"
    by blast
  from m have "map_of d ''arn:aws:iam::1:role/dev'' = Some ''arn:aws:iam::1:saml-provider/alt''"
    unfolding found by (simp add: cuts)
  moreover from len have "length d \<le> 2" unfolding found by simp
  moreover have "extract_arns ?saml
       = Inr [(''arn:aws:iam::1:role/dev'', ''arn:aws:iam::1:saml-provider/alt'')]"
    unfolding extract_arns_def found by (simp add: index_def)
  ultimately show ?thesis using found d dist by blast
qed

text \<open>
  C10. For each match the role ARN, the text after the first comma, is to be the key
  and the provider ARN before it the value; the comment in the code says so too
  (\<^verbatim>\<open>role is dict key\<close>). The code takes \<^verbatim>\<open>i.split(",")[1]\<close>, the second
  comma-separated piece. For a role whose name contains a comma, which IAM allows, the
  pattern captures the whole role ARN \<^verbatim>\<open>arn:aws:iam::1:role/a,b\<close>, but the key that is
  stored stops at the comma: \<^verbatim>\<open>arn:aws:iam::1:role/a\<close>.
\<close>

theorem role_key_stops_at_second_comma:
  "findall_arns ''<a>arn:aws:iam::1:saml-provider/okta,arn:aws:iam::1:role/a,b</a>''
     = [''arn:aws:iam::1:saml-provider/okta,arn:aws:iam::1:role/a,b'']
   \<and> snd (cut_at CHR '','' ''arn:aws:iam::1:saml-provider/okta,arn:aws:iam::1:role/a,b'')
     = ''arn:aws:iam::1:role/a,b''
   \<and> extract_arns ''<a>arn:aws:iam::1:saml-provider/okta,arn:aws:iam::1:role/a,b</a>''
     = Inr [(''arn:aws:iam::1:role/a'', ''arn:aws:iam::1:saml-provider/okta'')]"
proof -
  have found: "findall_arns ''<a>arn:aws:iam::1:saml-provider/okta,arn:aws:iam::1:role/a,b</a>''
     = [''arn:aws:iam::1:saml-provider/okta,arn:aws:iam::1:role/a,b'']"
    by (simp add: match_at_def literal_def arn_marker_def closing_def)
  moreover have "snd (cut_at CHR '','' ''arn:aws:iam::1:saml-provider/okta,arn:aws:iam::1:role/a,b'')
     = ''arn:aws:iam::1:role/a,b''"
    by (simp add: cut_at_def)
  moreover have "extract_arns ''<a>arn:aws:iam::1:saml-provider/okta,arn:aws:iam::1:role/a,b</a>''
     = Inr [(''arn:aws:iam::1:role/a'', ''arn:aws:iam::1:saml-provider/okta'')]"
    unfolding extract_arns_def found by (simp add: index_def)
  ultimately show ?thesis by blast
qed

end
